(* ===== verification/Prelude.thy ===== *)
theory Prelude
  imports Main "HOL-Library.Word" "HOL-Library.Sublist"
begin

text \<open>
  Shared vocabulary of the development: the machine integers of
  \<^verbatim>\<open>src/include/common.h\<close>, the error monad in which throwing C++ code is
  written, the conversions between \<open>char\<close> and \<open>u8\<close> that the C++ code makes with
  casts, and the fact collections the component theories fill.
\<close>

unbundle bit_operations_syntax

subsection \<open>Fixed-width integers\<close>

type_synonym u8 = "8 word"
type_synonym u16 = "16 word"
type_synonym u32 = "32 word"
type_synonym u64 = "64 word"
type_synonym s64 = "64 word" \<comment> \<open>two's complement, read with \<^term>\<open>sint\<close>\<close>

subsection \<open>Fact collections\<close>

named_theorems wf_intros \<open>operations that keep a well-formedness invariant\<close>

subsection \<open>Throwing code\<close>

text \<open>
  A C++ expression that may throw is a value of \<open>'e + 'a\<close>: \<^term>\<open>Inl e\<close> when it throws
  \<open>e\<close>, \<^term>\<open>Inr x\<close> when it returns \<open>x\<close>. \<open>bindr\<close> sequences two of them and
  \<open>map_exc\<close> injects an exception type into a larger one.
\<close>

fun bindr :: "'e + 'a \<Rightarrow> ('a \<Rightarrow> 'e + 'b) \<Rightarrow> 'e + 'b" where
  "bindr (Inl e) f = Inl e"
| "bindr (Inr x) f = f x"

fun map_exc :: "('e \<Rightarrow> 'f) \<Rightarrow> 'e + 'a \<Rightarrow> 'f + 'a" where
  "map_exc g (Inl e) = Inl (g e)"
| "map_exc g (Inr x) = Inr x"

lemma bindr_cong [fundef_cong]:
  assumes "m = m'" and "\<And>x. m' = Inr x \<Longrightarrow> f x = g x"
  shows "bindr m f = bindr m' g"
  using assms by (cases m') auto

lemma bindr_eq_Inr: "bindr m f = Inr y \<longleftrightarrow> (\<exists>x. m = Inr x \<and> f x = Inr y)"
  by (cases m) auto

lemma bindr_eq_Inl: "bindr m f = Inl e \<longleftrightarrow> m = Inl e \<or> (\<exists>x. m = Inr x \<and> f x = Inl e)"
  by (cases m) auto

lemma bindr_assoc: "bindr (bindr m f) g = bindr m (\<lambda>x. bindr (f x) g)"
  by (cases m) auto

lemma bindr_Inr_right [simp]: "bindr m Inr = m"
  by (cases m) auto

lemma map_exc_eq_Inr [simp]: "map_exc g m = Inr x \<longleftrightarrow> m = Inr x"
  by (cases m) auto

lemma map_exc_eq_Inl: "map_exc g m = Inl e \<longleftrightarrow> (\<exists>e'. m = Inl e' \<and> e = g e')"
  by (cases m) auto

subsection \<open>Bytes and characters\<close>

text \<open>
  \<open>std::string\<close> is a HOL string: a HOL \<open>char\<close> is one byte. The two casts between
  \<open>char\<close> and \<open>u8\<close> keep the bit pattern.
\<close>

definition byte_of_char :: "char \<Rightarrow> u8" where
  "byte_of_char c = of_nat (of_char c)"

definition char_of_byte :: "u8 \<Rightarrow> char" where
  "char_of_byte b = char_of (unat b)"

lemma of_char_less_256_int [simp]: "(of_char c :: int) < 256"
proof -
  have "int (of_char c) < int 256" by (simp only: of_nat_less_iff) simp
  then show ?thesis by (simp add: of_nat_of_char)
qed

lemma char_of_byte_of_char [simp]: "char_of_byte (byte_of_char c) = c"
  by (simp add: char_of_byte_def byte_of_char_def unat_of_nat)

lemma byte_of_char_of_byte [simp]: "byte_of_char (char_of_byte b) = b"
  using unsigned_less [of b, where 'a = nat] by (simp add: char_of_byte_def byte_of_char_def)

lemma char_of_byte_inject [simp]: "char_of_byte a = char_of_byte b \<longleftrightarrow> a = b"
  by (metis byte_of_char_of_byte)

lemma map_char_of_byte_of_char [simp]: "map (char_of_byte \<circ> byte_of_char) s = s"
  by (simp add: comp_def)

lemma map_byte_of_char_of_byte [simp]: "map (byte_of_char \<circ> char_of_byte) s = s"
  by (simp add: comp_def)

lemma all_chars: "list_all P (enum_class.enum :: char list) \<Longrightarrow> P c"
  by (simp add: list_all_iff UNIV_enum [symmetric])

subsection \<open>Lists and bits\<close>

lemma list4_induct [case_names Nil One Two Three Four]:
  assumes "P []" "\<And>a. P [a]" "\<And>a b. P [a, b]" "\<And>a b c. P [a, b, c]"
    and step: "\<And>a b c d xs. P xs \<Longrightarrow> P (a # b # c # d # xs)"
  shows "P (xs :: 'a list)"
proof (induction "length xs" arbitrary: xs rule: less_induct)
  case less
  consider "xs = []" | a where "xs = [a]" | a b where "xs = [a, b]" | a b c where "xs = [a, b, c]"
    | a b c d ys where "xs = a # b # c # d # ys"
    by (metis list.exhaust)
  then show ?case using assms(1-4) step less by cases simp_all
qed

lemma mod_offset: "k * m \<le> b \<Longrightarrow> b < k * m + m \<Longrightarrow> b mod m = b - k * m" for b :: nat
  by (metis add.commute le_add_diff_inverse2 less_diff_conv2 mod_less mod_mult_self1)

lemma replicate_two: "replicate 2 x = [x, x]"
  by (simp add: numeral_2_eq_2)

lemma byte_eqI:
  fixes a b :: u8
  assumes "bit a 0 = bit b 0" "bit a 1 = bit b 1" "bit a 2 = bit b 2" "bit a 3 = bit b 3"
    "bit a 4 = bit b 4" "bit a 5 = bit b 5" "bit a 6 = bit b 6" "bit a 7 = bit b 7"
  shows "a = b"
proof (rule bit_word_eqI)
  fix n assume "n < LENGTH(8)"
  then have "n = 0 \<or> n = 1 \<or> n = 2 \<or> n = 3 \<or> n = 4 \<or> n = 5 \<or> n = 6 \<or> n = 7" by auto
  with assms show "bit a n = bit b n" by (elim disjE) (simp_all only:)
qed

lemma bit_byte_beyond: "8 \<le> n \<Longrightarrow> \<not> bit (a :: u8) n"
  using bit_imp_le_length [of a n] by auto

end
