(* ===== verification/Base64.thy ===== *)
theory Base64
  imports Prelude
begin

text \<open>
  The base64 codec of \<^verbatim>\<open>src/src/json_protocol.cpp\<close>, which composes three iterator
  adaptors of \<^verbatim>\<open>src/externals/boost/boost/archive/iterators\<close>: \<open>transform_width\<close>
  regroups a stream of \<open>BitsIn\<close>-bit elements into \<open>BitsOut\<close>-bit elements,
  \<open>base64_from_binary\<close> and \<open>binary_from_base64\<close> map 6-bit values to characters and
  back. \<open>EncodeBase64\<close> is proved equal to the RFC 4648 encoding; \<open>DecodeBase64\<close> is
  characterised on every input, including the bytes it adds for padding characters.
\<close>

section \<open>The iterator adaptors\<close>

datatype exception_code =
    invalid_6_bitcode
  | invalid_base64_character
  | invalid_xml_escape_sequence
  | comparison_not_permitted
  | invalid_conversion
  | other_exception

datatype b64_exc =
    dataflow_exception exception_code
  | assertion_failure \<comment> \<open>\<open>BOOST_ASSERT\<close> of a condition that does not hold\<close>
  | read_past_end \<comment> \<open>dereferencing the end of a \<open>std::vector\<close>: undefined behaviour\<close>

definition from_6_bit_table :: string where
  "from_6_bit_table =
     ''ABCDEFGHIJKLMNOPQRSTUVWXYZ'' @ ''abcdefghijklmnopqrstuvwxyz'' @ ''0123456789'' @ ''+/''"

definition from_6_bit :: "u8 \<Rightarrow> b64_exc + char" where
  "from_6_bit t =
     (if t < 64 then Inr (from_6_bit_table ! unat t) else Inl assertion_failure)"

definition to_6_bit_table :: "int list" where
  "to_6_bit_table =
    [-1,-1,-1,-1,-1,-1,-1,-1,-1,-1,-1,-1,-1,-1,-1,-1,
     -1,-1,-1,-1,-1,-1,-1,-1,-1,-1,-1,-1,-1,-1,-1,-1,
     -1,-1,-1,-1,-1,-1,-1,-1,-1,-1,-1,62,-1,-1,-1,63,
     52,53,54,55,56,57,58,59,60,61,-1,-1,-1, 0,-1,-1,
     -1, 0, 1, 2, 3, 4, 5, 6, 7, 8, 9,10,11,12,13,14,
     15,16,17,18,19,20,21,22,23,24,25,-1,-1,-1,-1,-1,
     -1,26,27,28,29,30,31,32,33,34,35,36,37,38,39,40,
     41,42,43,44,45,46,47,48,49,50,51,-1,-1,-1,-1,-1]"

text \<open>
  A negative \<open>char\<close> becomes a large \<open>unsigned\<close>, so on either signedness of \<open>char\<close> the
  bytes 128 to 255 fail the range test.
\<close>

definition to_6_bit :: "char \<Rightarrow> b64_exc + u8" where
  "to_6_bit t =
     (let value = (if of_char t \<le> (127::nat) then to_6_bit_table ! of_char t else -1)
      in if value = -1 then Inl (dataflow_exception invalid_base64_character)
         else Inr (of_int value))"

text \<open>
  The state of a \<open>transform_width\<close> iterator. \<open>base_reference\<close> is the underlying iterator,
  given by the elements between it and the end of the range; the end iterator of the range
  is the one with no elements left. \<open>CharType\<close> and \<open>base_value_type\<close> are one byte wide in
  both instances the program uses.
\<close>

record 'x transform_width =
  base_reference :: "'x list"
  m_buffer_out_full :: bool
  m_buffer_out :: u8
  m_buffer_in :: u8
  m_remaining_bits :: nat
  m_end_of_sequence :: bool

definition transform_width_start :: "'x list \<Rightarrow> 'x transform_width" where
  "transform_width_start start =
     \<lparr>base_reference = start, m_buffer_out_full = False, m_buffer_out = 0, m_buffer_in = 0,
      m_remaining_bits = 0, m_end_of_sequence = False\<rparr>"

text \<open>
  \<open>conv\<close> is what dereferencing the base iterator does to the element it stands on and
  \<open>past_end\<close> what it throws at the end of the range.
\<close>

definition fill_refill ::
    "('x \<Rightarrow> b64_exc + u8) \<Rightarrow> b64_exc \<Rightarrow> nat \<Rightarrow> nat \<Rightarrow> 'x transform_width
       \<Rightarrow> b64_exc + 'x transform_width" where
  "fill_refill conv past_end bits_in missing_bits it =
     (if m_remaining_bits it = 0 then
        if m_end_of_sequence it then
          Inr (it\<lparr>m_buffer_in := 0, m_remaining_bits := missing_bits\<rparr>)
        else
          (case base_reference it of
             [] \<Rightarrow> Inl past_end
           | x # rest \<Rightarrow>
               bindr (conv x) (\<lambda>v.
               Inr (it\<lparr>base_reference := rest, m_buffer_in := v, m_remaining_bits := bits_in\<rparr>)))
      else Inr it)"

definition fill_append :: "nat \<Rightarrow> 'x transform_width \<Rightarrow> 'x transform_width" where
  "fill_append missing_bits it =
     (let i = min missing_bits (m_remaining_bits it);
          j = drop_bit (m_remaining_bits it - i) (m_buffer_in it) AND mask i
      in it\<lparr>m_buffer_out := push_bit i (m_buffer_out it) OR j,
            m_remaining_bits := m_remaining_bits it - i\<rparr>)"

text \<open>
  The \<open>do\<close> loop of \<open>fill\<close>. An iteration moves \<open>i\<close> bits; with \<open>BitsIn = 0\<close>, which no
  instance has, it would move none and the loop would not end, and the model stops there.
\<close>

function fill_loop ::
    "('x \<Rightarrow> b64_exc + u8) \<Rightarrow> b64_exc \<Rightarrow> nat \<Rightarrow> nat \<Rightarrow> 'x transform_width
       \<Rightarrow> b64_exc + 'x transform_width" where
  "fill_loop conv past_end bits_in missing_bits it =
     bindr (fill_refill conv past_end bits_in missing_bits it) (\<lambda>it1.
       let i = min missing_bits (m_remaining_bits it1);
           it2 = fill_append missing_bits it1
       in if i = 0 \<or> missing_bits - i = 0 then Inr it2
          else fill_loop conv past_end bits_in (missing_bits - i) it2)"
  by pat_completeness auto
termination
  by (relation "measure (\<lambda>(conv, past_end, bits_in, missing_bits, it). missing_bits)") auto

declare fill_loop.simps [simp del]

definition fill ::
    "('x \<Rightarrow> b64_exc + u8) \<Rightarrow> b64_exc \<Rightarrow> nat \<Rightarrow> nat \<Rightarrow> 'x transform_width
       \<Rightarrow> b64_exc + 'x transform_width" where
  "fill conv past_end bits_out bits_in it =
     map_sum id (\<lambda>it'. it'\<lparr>m_buffer_out_full := True\<rparr>)
       (fill_loop conv past_end bits_in bits_out (it\<lparr>m_buffer_out := 0\<rparr>))"

definition dereference ::
    "('x \<Rightarrow> b64_exc + u8) \<Rightarrow> b64_exc \<Rightarrow> nat \<Rightarrow> nat \<Rightarrow> 'x transform_width
       \<Rightarrow> b64_exc + u8 \<times> 'x transform_width" where
  "dereference conv past_end bits_out bits_in it =
     bindr (if m_buffer_out_full it then Inr it else fill conv past_end bits_out bits_in it)
       (\<lambda>it'. Inr (m_buffer_out it', it'))"

definition equal_end :: "nat \<Rightarrow> nat \<Rightarrow> 'x transform_width \<Rightarrow> bool \<times> 'x transform_width" where
  "equal_end bits_out bits_in it =
     (if bits_in < bits_out then (base_reference it = [], it)
      else if base_reference it = [] then
        (m_remaining_bits it = 0, it\<lparr>m_end_of_sequence := True\<rparr>)
      else (False, it))"

definition increment :: "'x transform_width \<Rightarrow> 'x transform_width" where
  "increment it = it\<lparr>m_buffer_out_full := False\<rparr>"

section \<open>Progress of the iterators\<close>

text \<open>The input bits an iterator can still deliver.\<close>

definition bits_left :: "nat \<Rightarrow> 'x transform_width \<Rightarrow> nat" where
  "bits_left bits_in it = bits_in * length (base_reference it) + m_remaining_bits it"

lemma fill_refill_shape:
  assumes "fill_refill conv past_end bits_in missing it = Inr it1"
  shows "if m_remaining_bits it = 0 \<and> m_end_of_sequence it
         then base_reference it1 = base_reference it \<and> m_remaining_bits it1 = missing
         else bits_left bits_in it1 = bits_left bits_in it"
  using assms
  by (auto simp: fill_refill_def bits_left_def bindr_eq_Inr split: if_splits list.splits)

lemma fill_refill_flags:
  assumes "fill_refill conv past_end bits_in missing it = Inr it1"
  shows "m_end_of_sequence it1 = m_end_of_sequence it"
    and "m_remaining_bits it = 0 \<Longrightarrow> \<not> m_end_of_sequence it \<Longrightarrow> m_remaining_bits it1 = bits_in"
    and "m_remaining_bits it \<noteq> 0 \<Longrightarrow> it1 = it"
    and "m_end_of_sequence it \<Longrightarrow> base_reference it1 = base_reference it"
  using assms by (auto simp: fill_refill_def bindr_eq_Inr split: if_splits list.splits)

lemma fill_append_simps [simp]:
  "base_reference (fill_append m it) = base_reference it"
  "m_end_of_sequence (fill_append m it) = m_end_of_sequence it"
  "m_remaining_bits (fill_append m it) = m_remaining_bits it - min m (m_remaining_bits it)"
  by (simp_all add: fill_append_def Let_def)

lemma fill_loop_InrE:
  assumes "fill_loop conv past_end bits_in missing it = Inr it'"
  obtains it1 where "fill_refill conv past_end bits_in missing it = Inr it1"
    and "(if min missing (m_remaining_bits it1) = 0 \<or> missing - min missing (m_remaining_bits it1) = 0
          then Inr (fill_append missing it1)
          else fill_loop conv past_end bits_in (missing - min missing (m_remaining_bits it1))
                 (fill_append missing it1)) = Inr it'"
  using assms unfolding fill_loop.simps [of conv past_end bits_in missing it] bindr_eq_Inr Let_def
  by blast

lemma fill_loop_bits:
  assumes "fill_loop conv past_end bits_in missing it = Inr it'" and "0 < missing"
    and "0 < bits_in" and "m_end_of_sequence it \<longrightarrow> base_reference it = []"
  shows "bits_left bits_in it' \<le> bits_left bits_in it
    \<and> (0 < bits_left bits_in it \<longrightarrow> bits_left bits_in it' < bits_left bits_in it)
    \<and> m_end_of_sequence it' = m_end_of_sequence it"
  using assms
proof (induction conv past_end bits_in missing it rule: fill_loop.induct)
  case (1 conv past_end bits_in missing it)
  obtain it1 where r: "fill_refill conv past_end bits_in missing it = Inr it1"
    and c: "(if min missing (m_remaining_bits it1) = 0 \<or> missing - min missing (m_remaining_bits it1) = 0
          then Inr (fill_append missing it1)
          else fill_loop conv past_end bits_in (missing - min missing (m_remaining_bits it1))
                 (fill_append missing it1)) = Inr it'"
    using "1.prems"(1) by (rule fill_loop_InrE)
  let ?i = "min missing (m_remaining_bits it1)"
  let ?it2 = "fill_append missing it1"
  have eos: "m_end_of_sequence it1 = m_end_of_sequence it"
    using fill_refill_flags(1) [OF r] .
  have pos: "0 < ?i"
  proof (cases "m_remaining_bits it = 0")
    case True
    with fill_refill_shape [OF r] fill_refill_flags(2) [OF r] "1.prems"(2,3)
    show ?thesis by (cases "m_end_of_sequence it") auto
  next
    case False
    with fill_refill_flags(3) [OF r] "1.prems"(2) show ?thesis by auto
  qed
  have two: "bits_left bits_in ?it2 \<le> bits_left bits_in it
    \<and> (0 < bits_left bits_in it \<longrightarrow> bits_left bits_in ?it2 < bits_left bits_in it)"
  proof (cases "m_remaining_bits it = 0 \<and> m_end_of_sequence it")
    case True
    with fill_refill_shape [OF r] "1.prems"(4) show ?thesis
      by (simp add: bits_left_def)
  next
    case False
    with fill_refill_shape [OF r] have "bits_left bits_in it1 = bits_left bits_in it"
      by (simp only: if_False)
    with pos show ?thesis by (auto simp: bits_left_def)
  qed
  show ?case
  proof (cases "?i = 0 \<or> missing - ?i = 0")
    case True
    with c have "it' = ?it2" by (simp only: if_True sum.inject)
    with two eos show ?thesis by simp
  next
    case False
    with c have rec: "fill_loop conv past_end bits_in (missing - ?i) ?it2 = Inr it'"
      by (simp only: if_False)
    have base: "m_end_of_sequence ?it2 \<longrightarrow> base_reference ?it2 = []"
      using "1.prems"(4) eos fill_refill_flags(4) [OF r] by simp
    from "1.IH" [OF r refl refl False rec _ "1.prems"(3) base] False
    have "bits_left bits_in it' \<le> bits_left bits_in ?it2 \<and> m_end_of_sequence it' = m_end_of_sequence ?it2"
      by auto
    with two eos show ?thesis by auto
  qed
qed


lemma fill_bits:
  assumes "fill conv past_end bits_out bits_in it = Inr it'" and "0 < bits_out"
    and "0 < bits_in" and "m_end_of_sequence it \<longrightarrow> base_reference it = []"
    and "0 < bits_left bits_in it"
  shows "bits_left bits_in it' < bits_left bits_in it"
proof -
  from assms(1) obtain it1
    where "fill_loop conv past_end bits_in bits_out (it\<lparr>m_buffer_out := 0\<rparr>) = Inr it1"
      and "it' = it1\<lparr>m_buffer_out_full := True\<rparr>"
    by (cases "fill_loop conv past_end bits_in bits_out (it\<lparr>m_buffer_out := 0\<rparr>)")
       (auto simp: fill_def)
  with fill_loop_bits [OF this(1) assms(2,3)] assms(4,5) show ?thesis
    by (auto simp: bits_left_def)
qed

section \<open>Copying a range\<close>

text \<open>
  \<open>std::copy\<close> and the range constructor of \<open>std::string\<close> run the same loop: compare with
  the end, dereference, store, increment. \<open>well_placed\<close> holds of every iterator that was
  built from a range and advanced by the loop; other records of the type are no iterators,
  and there the loop is not entered.
\<close>

definition well_placed :: "nat \<Rightarrow> 'x transform_width \<Rightarrow> bool" where
  "well_placed bits_in it \<longleftrightarrow>
     0 < bits_in \<and> \<not> m_buffer_out_full it \<and> (m_end_of_sequence it \<longrightarrow> base_reference it = [])"

function copy_range ::
    "('x \<Rightarrow> b64_exc + u8) \<Rightarrow> b64_exc \<Rightarrow> nat \<Rightarrow> nat \<Rightarrow> (u8 \<Rightarrow> b64_exc + 'y)
       \<Rightarrow> 'x transform_width \<Rightarrow> 'y list \<Rightarrow> b64_exc + 'y list" where
  "copy_range conv past_end bits_out bits_in post it out =
     (if \<not> well_placed bits_in it \<or> bits_out = 0 then Inl assertion_failure
      else let (at_end, it1) = equal_end bits_out bits_in it
           in if at_end then Inr out
              else bindr (dereference conv past_end bits_out bits_in it1) (\<lambda>(v, it2).
                   bindr (post v) (\<lambda>y.
                   copy_range conv past_end bits_out bits_in post (increment it2) (out @ [y]))))"
  by pat_completeness auto
termination
proof (relation "measure (\<lambda>(conv, past_end, bits_out, bits_in, post, it, out). bits_left bits_in it)")
  fix conv :: "'x \<Rightarrow> b64_exc + u8" and past_end :: b64_exc and bits_out bits_in :: nat
    and post :: "u8 \<Rightarrow> b64_exc + 'y"
    and it it1 it2 :: "'x transform_width" and out x v p at_end y
  assume wp: "\<not> (\<not> well_placed bits_in it \<or> bits_out = 0)"
    and eq: "x = equal_end bits_out bits_in it" "(at_end, it1) = x" "\<not> at_end"
    and d: "dereference conv past_end bits_out bits_in it1 = Inr p" "(v, it2) = p"
  have left: "0 < bits_left bits_in it1" "bits_left bits_in it1 = bits_left bits_in it"
    and it1: "m_end_of_sequence it1 \<longrightarrow> base_reference it1 = []" "\<not> m_buffer_out_full it1"
    using eq wp by (auto simp: equal_end_def well_placed_def bits_left_def split: if_splits)
  from d it1(2) have "fill conv past_end bits_out bits_in it1 = Inr it2"
    by (auto simp: dereference_def bindr_eq_Inr)
  with fill_bits [OF this _ _ it1(1) left(1)] wp left(2)
  show "((conv, past_end, bits_out, bits_in, post, increment it2, out @ [y]),
         conv, past_end, bits_out, bits_in, post, it, out)
        \<in> measure (\<lambda>(conv, past_end, bits_out, bits_in, post, it, out). bits_left bits_in it)"
    by (simp add: well_placed_def bits_left_def increment_def)
qed simp

declare copy_range.simps [simp del]

section \<open>DecodeBase64 and EncodeBase64\<close>

text \<open>
  A \<open>std::string\<close> is followed by a terminating NUL, which is what dereferencing its end
  reads; \<open>to_6_bit\<close> rejects it (lemma \<open>to_6_bit_NUL\<close>).
\<close>

definition string_past_end :: b64_exc where
  "string_past_end = dataflow_exception invalid_base64_character"

definition DecodeBase64 :: "string \<Rightarrow> b64_exc + u8 list" where
  "DecodeBase64 val = copy_range to_6_bit string_past_end 8 6 Inr (transform_width_start val) []"

definition EncodeBase64 :: "u8 list \<Rightarrow> b64_exc + string" where
  "EncodeBase64 val =
     bindr (copy_range Inr read_past_end 6 8 from_6_bit (transform_width_start val) [])
       (\<lambda>tmp. Inr (tmp @ replicate ((3 - length val mod 3) mod 3) (CHR ''='')))"

section \<open>The reference: RFC 4648\<close>

text \<open>
  The regrouping of octets into 6-bit values and back, four values for three octets, with
  the short last group written out.
\<close>

fun sextets :: "u8 list \<Rightarrow> u8 list" where
  "sextets [] = []"
| "sextets [a] = [drop_bit 2 a, push_bit 4 a AND 48]"
| "sextets [a, b] = [drop_bit 2 a, (push_bit 4 a AND 48) OR drop_bit 4 b, push_bit 2 b AND 60]"
| "sextets (a # b # c # xs) =
     drop_bit 2 a # ((push_bit 4 a AND 48) OR drop_bit 4 b) #
     ((push_bit 2 b AND 60) OR drop_bit 6 c) # (c AND 63) # sextets xs"

fun octets :: "u8 list \<Rightarrow> u8 list" where
  "octets (v # w # x # y # vs) =
     (push_bit 2 v OR drop_bit 4 w) # (push_bit 4 w OR drop_bit 2 x) # (push_bit 6 x OR y) # octets vs"
| "octets [v, w, x] = [push_bit 2 v OR drop_bit 4 w, push_bit 4 w OR drop_bit 2 x]"
| "octets [v, w] = [push_bit 2 v OR drop_bit 4 w]"
| "octets [v] = []"
| "octets [] = []"


abbreviation b64_char :: "u8 \<Rightarrow> char" where
  "b64_char v \<equiv> from_6_bit_table ! unat v"

definition rfc4648_encode :: "u8 list \<Rightarrow> string" where
  "rfc4648_encode xs = map b64_char (sextets xs) @
     (if length xs mod 3 = 1 then ''=='' else if length xs mod 3 = 2 then ''='' else [])"

definition is_b64_char :: "char \<Rightarrow> bool" where
  "is_b64_char c \<longleftrightarrow> c \<in> set from_6_bit_table \<or> c = CHR ''=''"

definition b64_value :: "char \<Rightarrow> u8" where
  "b64_value c =
     (if c = CHR ''='' then 0 else of_nat (length (takeWhile (\<lambda>d. d \<noteq> c) from_6_bit_table)))"

section \<open>The encoder\<close>

lemma to_6_bit_NUL: "to_6_bit (CHR 0x00) = Inl string_past_end"
  by (simp add: to_6_bit_def to_6_bit_table_def string_past_end_def)

lemma regroup:
  "push_bit 2 (drop_bit 2 a) OR (drop_bit 4 (push_bit 4 a) AND 3) = (a :: u8)"
  "push_bit 4 (drop_bit 4 a) OR (drop_bit 2 (push_bit 2 a) AND 15) = (a :: u8)"
  "push_bit 6 (drop_bit 6 a) OR (a AND 63) = (a :: u8)"
  by (rule byte_eqI; simp add: bit_simps)+

lemma mask_vals: "(mask 2 :: u8) = 3" "(mask 4 :: u8) = 15" "(mask 6 :: u8) = 63"
  by (simp_all add: mask_eq_exp_minus_1)
lemma byte_and_63_less: "(v AND 63 :: u8) < 64"
  using word_and_le1 [of v 63] by (rule order.strict_trans1) simp

lemma byte_less_64: "v = v AND 63 \<Longrightarrow> v < (64 :: u8)"
  by (metis byte_and_63_less)

lemma sextet_bounds:
  "drop_bit 2 (a :: u8) < 64" "push_bit 4 a AND 48 < (64 :: u8)" "push_bit 2 a AND 60 < (64 :: u8)"
  "(push_bit 4 a AND 48) OR drop_bit 4 b < (64 :: u8)" "(push_bit 2 a AND 60) OR drop_bit 6 b < (64 :: u8)"
  "(a AND 63 :: u8) < 64"
  by (rule byte_less_64, rule byte_eqI; simp add: bit_simps bit_byte_beyond)+

lemma sextets_less: "v \<in> set (sextets xs) \<Longrightarrow> v < 64"
  by (induction xs rule: sextets.induct) (auto simp: sextet_bounds byte_and_63_less)

lemma from_6_bit_less: "v < 64 \<Longrightarrow> from_6_bit v = Inr (b64_char v)"
  by (simp add: from_6_bit_def)

abbreviation tw :: "'x list \<Rightarrow> u8 \<Rightarrow> u8 \<Rightarrow> nat \<Rightarrow> 'x transform_width" where
  "tw xs q b r \<equiv> \<lparr>base_reference = xs, m_buffer_out_full = False, m_buffer_out = q, m_buffer_in = b,
      m_remaining_bits = r, m_end_of_sequence = False\<rparr>"

abbreviation enc_loop :: "u8 transform_width \<Rightarrow> string \<Rightarrow> b64_exc + string" where
  "enc_loop \<equiv> copy_range Inr read_past_end 6 8 from_6_bit"

abbreviation dec_loop :: "char transform_width \<Rightarrow> u8 list \<Rightarrow> b64_exc + u8 list" where
  "dec_loop \<equiv> copy_range to_6_bit string_past_end 8 6 Inr"

lemmas run_defs = well_placed_def equal_end_def dereference_def fill_def fill_refill_def
  fill_append_def increment_def Let_def mask_vals

lemmas fill_enc = fill_loop.simps [of Inr read_past_end 8 6] fill_loop.simps [of Inr read_past_end 8 4]
  fill_loop.simps [of Inr read_past_end 8 2]

lemmas fill_dec = fill_loop.simps [of to_6_bit string_past_end 6 8]
  fill_loop.simps [of to_6_bit string_past_end 6 6] fill_loop.simps [of to_6_bit string_past_end 6 4]
  fill_loop.simps [of to_6_bit string_past_end 6 2]

lemma enc_loop_done:
  "\<not> m_buffer_out_full it \<Longrightarrow> base_reference it = [] \<Longrightarrow> m_remaining_bits it = 0 \<Longrightarrow> enc_loop it out = Inr out"
  by (subst copy_range.simps) (simp add: run_defs)

lemma byte_masks:
  "drop_bit 2 a AND 63 = drop_bit 2 (a :: u8)" "drop_bit 4 a AND 15 = drop_bit 4 (a :: u8)"
  "drop_bit 6 a AND 3 = drop_bit 6 (a :: u8)"
  by (rule byte_eqI; simp add: bit_simps bit_byte_beyond)+

lemma enc_loop_0:
  "enc_loop (tw (a # xs) q b 0) out = enc_loop (tw xs (drop_bit 2 a) a 2) (out @ [b64_char (drop_bit 2 a)])"
  by (subst copy_range.simps)
     (simp add: run_defs fill_enc byte_masks from_6_bit_less sextet_bounds)

lemma enc_loop_2:
  "enc_loop (tw (a # xs) q b 2) out =
     enc_loop (tw xs ((push_bit 4 b AND 48) OR drop_bit 4 a) a 4)
       (out @ [b64_char ((push_bit 4 b AND 48) OR drop_bit 4 a)])"
  "enc_loop (tw [] q b 2) out = Inr (out @ [b64_char (push_bit 4 b AND 48)])"
  by (subst copy_range.simps,
      simp add: run_defs fill_enc byte_masks from_6_bit_less sextet_bounds enc_loop_done)+

lemma enc_loop_4:
  "enc_loop (tw (a # xs) q b 4) out =
     enc_loop (tw xs ((push_bit 2 b AND 60) OR drop_bit 6 a) a 6)
       (out @ [b64_char ((push_bit 2 b AND 60) OR drop_bit 6 a)])"
  "enc_loop (tw [] q b 4) out = Inr (out @ [b64_char (push_bit 2 b AND 60)])"
  by (subst copy_range.simps,
      simp add: run_defs fill_enc byte_masks from_6_bit_less sextet_bounds enc_loop_done)+

lemma enc_loop_6:
  "enc_loop (tw xs q b 6) out = enc_loop (tw xs (b AND 63) b 0) (out @ [b64_char (b AND 63)])"
  by (subst copy_range.simps, cases xs)
     (simp_all add: run_defs fill_enc byte_masks from_6_bit_less sextet_bounds enc_loop_done)

lemma enc_loop_sextets:
  "enc_loop (tw xs q b 0) out = Inr (out @ map b64_char (sextets xs))"
  by (induction xs arbitrary: q b out rule: sextets.induct)
     (simp_all add: enc_loop_0 enc_loop_2 enc_loop_4 enc_loop_6 enc_loop_done)

section \<open>The decoder\<close>

lemma dec_loop_done: "\<not> m_buffer_out_full it \<Longrightarrow> \<not> m_end_of_sequence it \<Longrightarrow> base_reference it = [] \<Longrightarrow> dec_loop it out = Inr out"
  by (subst copy_range.simps) (simp add: run_defs)

lemma to_6_bit_table_check:
  "list_all (\<lambda>c. to_6_bit c = (if is_b64_char c then Inr (b64_value c) else Inl string_past_end)
     \<and> (is_b64_char c \<longrightarrow> b64_value c AND 63 = b64_value c)) enum_class.enum"
  by code_simp

lemma to_6_bit_spec:
  "to_6_bit c = (if is_b64_char c then Inr (b64_value c) else Inl string_past_end)"
  using all_chars [OF to_6_bit_table_check, of c] by blast

lemma b64_value_and: "is_b64_char c \<Longrightarrow> b64_value c AND 63 = b64_value c"
  using all_chars [OF to_6_bit_table_check, of c] by blast

lemma octet_masks:
  "push_bit 2 v AND 252 = push_bit 2 (v :: u8)" "push_bit 4 v AND 240 = push_bit 4 (v :: u8)"
  "push_bit 6 v AND 192 = push_bit 6 (v :: u8)"
  by (rule byte_eqI; simp add: bit_simps)+

lemma drop_masks:
  assumes "v AND 63 = (v :: u8)"
  shows "drop_bit 4 v AND 3 = drop_bit 4 v" and "drop_bit 2 v AND 15 = drop_bit 2 v"
proof -
  have "drop_bit 4 (v AND 63) AND 3 = drop_bit 4 (v AND 63)"
    and "drop_bit 2 (v AND 63) AND 15 = drop_bit 2 (v AND 63)"
    by (rule byte_eqI; simp add: bit_simps)+
  then show "drop_bit 4 v AND 3 = drop_bit 4 v" "drop_bit 2 v AND 15 = drop_bit 2 v"
    by (simp_all only: assms)
qed

lemmas dec_simps = run_defs fill_dec to_6_bit_spec octet_masks drop_masks b64_value_and

lemma dec_loop_0:
  "is_b64_char c \<Longrightarrow> is_b64_char d \<Longrightarrow>
   dec_loop (tw (c # d # cs) q b 0) out =
     dec_loop (tw cs (push_bit 2 (b64_value c) OR drop_bit 4 (b64_value d)) (b64_value d) 4)
       (out @ [push_bit 2 (b64_value c) OR drop_bit 4 (b64_value d)])"
  by (subst copy_range.simps) (simp add: dec_simps)

lemma dec_loop_0_exc:
  "\<not> is_b64_char c \<Longrightarrow> dec_loop (tw (c # cs) q b 0) out = Inl string_past_end"
  "dec_loop (tw [c] q b 0) out = Inl string_past_end"
  "\<not> is_b64_char d \<Longrightarrow> dec_loop (tw (c # d # cs) q b 0) out = Inl string_past_end"
  by (subst copy_range.simps, simp add: dec_simps)+

lemma dec_loop_4:
  "is_b64_char c \<Longrightarrow>
   dec_loop (tw (c # cs) q b 4) out =
     dec_loop (tw cs (push_bit 4 b OR drop_bit 2 (b64_value c)) (b64_value c) 2)
       (out @ [push_bit 4 b OR drop_bit 2 (b64_value c)])"
  "\<not> is_b64_char c \<Longrightarrow> dec_loop (tw (c # cs) q b 4) out = Inl string_past_end"
  by (subst copy_range.simps, simp add: dec_simps)+

lemma dec_loop_2:
  "is_b64_char c \<Longrightarrow>
   dec_loop (tw (c # cs) q b 2) out =
     dec_loop (tw cs (push_bit 6 b OR b64_value c) (b64_value c) 0)
       (out @ [push_bit 6 b OR b64_value c])"
  "\<not> is_b64_char c \<Longrightarrow> dec_loop (tw (c # cs) q b 2) out = Inl string_past_end"
  by (subst copy_range.simps, simp add: dec_simps)+

lemma dec_loop_octets:
  "dec_loop (tw s q b 0) out =
     (if length s mod 4 = 1 \<or> (\<exists>c \<in> set s. \<not> is_b64_char c) then Inl string_past_end
      else Inr (out @ octets (map b64_value s)))"
  apply (induction s arbitrary: q b out rule: list4_induct)
  subgoal by (simp add: dec_loop_done)
  subgoal by (simp add: dec_loop_0_exc)
  subgoal for c d by (cases "is_b64_char c"; cases "is_b64_char d") (simp_all add: dec_loop_0 dec_loop_0_exc dec_loop_done)
  subgoal for c d e by (cases "is_b64_char c"; cases "is_b64_char d"; cases "is_b64_char e") (simp_all add: dec_loop_0 dec_loop_0_exc dec_loop_4 dec_loop_done)
  subgoal for c d e f cs
    by (cases "is_b64_char c"; cases "is_b64_char d"; cases "is_b64_char e"; cases "is_b64_char f")
      (simp_all add: dec_loop_0 dec_loop_0_exc dec_loop_4 dec_loop_2)
  done

lemma b64_char_check:
  "list_all (\<lambda>n. is_b64_char (from_6_bit_table ! n) \<and> from_6_bit_table ! n \<noteq> CHR ''=''
     \<and> b64_value (from_6_bit_table ! n) = of_nat n) [0..<64]"
  by code_simp

lemma b64_char_value:
  assumes "v < 64" shows "is_b64_char (b64_char v)" and "b64_value (b64_char v) = v"
    and "b64_char v \<noteq> CHR ''=''"
proof -
  have "unat v < 64" using assms by (simp add: word_less_nat_alt)
  with b64_char_check show "is_b64_char (b64_char v)" and "b64_value (b64_char v) = v"
    and "b64_char v \<noteq> CHR ''=''"
    by (auto simp: list_all_iff)
qed

lemma octets_sextets: "octets (sextets xs) = xs"
  by (induction xs rule: sextets.induct) (simp_all add: regroup)

lemma octets_sextets_padded:
  "octets (sextets xs @ replicate ((3 - length xs mod 3) mod 3) 0)
     = xs @ replicate ((3 - length xs mod 3) mod 3) 0"
  by (induction xs rule: sextets.induct) (simp_all add: regroup replicate_two)

section \<open>Properties of the codec\<close>

lemma enc_result: "EncodeBase64 xs = Inr (rfc4648_encode xs)"
proof -
  have "length xs mod 3 = 0 \<or> length xs mod 3 = 1 \<or> length xs mod 3 = 2" by arith
  then show ?thesis
    by (auto simp: EncodeBase64_def transform_width_start_def enc_loop_sextets rfc4648_encode_def
        numeral_2_eq_2)
qed

lemma dec_result:
  "DecodeBase64 s =
     (if length s mod 4 = 1 \<or> (\<exists>c \<in> set s. \<not> is_b64_char c)
      then Inl (dataflow_exception invalid_base64_character)
      else Inr (octets (map b64_value s)))"
  by (simp add: DecodeBase64_def transform_width_start_def dec_loop_octets
      string_past_end_def [symmetric])

lemma rfc4648_encode_padding:
  "rfc4648_encode xs =
     map b64_char (sextets xs) @ replicate ((3 - length xs mod 3) mod 3) (CHR ''='')"
  using enc_result [of xs]
  by (simp add: EncodeBase64_def transform_width_start_def enc_loop_sextets)

lemma b64_value_sextets: "map (b64_value \<circ> b64_char) (sextets xs) = sextets xs"
  by (rule map_idI) (simp add: b64_char_value sextets_less)

lemma length_sextets_padded:
  "(length (sextets xs) + (3 - length xs mod 3) mod 3) mod 4 = 0"
  by (induction xs rule: sextets.induct) simp_all

lemma dec_enc_result: "DecodeBase64 (rfc4648_encode xs) = Inr (xs @ replicate ((3 - length xs mod 3) mod 3) 0)"
proof -
  let ?pad = "(3 - length xs mod 3) mod 3"
  have pad: "rfc4648_encode xs = map b64_char (sextets xs) @ replicate ?pad (CHR ''='')"
    by (simp add: rfc4648_encode_padding)
  have "map b64_value (rfc4648_encode xs) = sextets xs @ replicate ?pad 0"
    unfolding pad by (simp add: b64_value_sextets) (simp add: b64_value_def)
  moreover have "length (rfc4648_encode xs) mod 4 \<noteq> 1"
    unfolding pad by (simp add: length_sextets_padded)
  moreover have "\<forall>c \<in> set (rfc4648_encode xs). is_b64_char c"
    unfolding pad by (auto simp: b64_char_value dest!: sextets_less) (simp add: is_b64_char_def)
  ultimately show ?thesis by (auto simp: dec_result octets_sextets_padded)
qed

text \<open>
  C11: \<open>EncodeBase64\<close> never throws and computes the padded base64 encoding of RFC 4648.
\<close>

theorem EncodeBase64_rfc4648: "EncodeBase64 xs = Inr (rfc4648_encode xs)"
  by (rule enc_result)

text \<open>
  C12: \<open>DecodeBase64\<close> on every input: it throws
  \<open>dataflow_exception::invalid_base64_character\<close> exactly when the text has a character
  outside the alphabet (the padding character counts as inside) or a single character in
  its last group of four, where it reads the string's terminator; otherwise it returns the
  regrouped octets, with every padding character decoded as six zero bits.
\<close>

theorem DecodeBase64_result:
  "DecodeBase64 s =
     (if length s mod 4 = 1 \<or> (\<exists>c \<in> set s. \<not> is_b64_char c)
      then Inl (dataflow_exception invalid_base64_character)
      else Inr (octets (map b64_value s)))"
  by (rule dec_result)

text \<open>
  C25: decoding what \<open>EncodeBase64\<close> produced gives the original bytes followed by one zero
  byte for each padding character: the two are inverse only on data whose size is a
  multiple of three.
\<close>

theorem DecodeBase64_of_EncodeBase64:
  "\<exists>s. EncodeBase64 xs = Inr s
     \<and> DecodeBase64 s = Inr (xs @ replicate ((3 - length xs mod 3) mod 3) 0)"
  by (simp add: enc_result dec_enc_result)

text \<open>
  C26: an encoding sent without its padding characters is decoded to exactly the original
  bytes.
\<close>

theorem DecodeBase64_unpadded:
  "DecodeBase64 (filter (\<lambda>c. c \<noteq> CHR ''='') (rfc4648_encode xs)) = Inr xs"
proof -
  have plain: "filter (\<lambda>c. c \<noteq> CHR ''='') (rfc4648_encode xs) = map b64_char (sextets xs)"
    by (auto simp: rfc4648_encode_def filter_id_conv b64_char_value dest!: sextets_less)
  have "length (sextets xs) mod 4 \<noteq> 1"
    by (induction xs rule: sextets.induct) auto
  then show ?thesis
    unfolding plain by (auto simp: dec_result b64_value_sextets octets_sextets b64_char_value
        dest!: sextets_less)
qed

end
