(* ===== verification/Protocol.thy ===== *)
theory Protocol
  imports Prelude
begin

text \<open>
  The messages of \<^verbatim>\<open>src/src/protocol.h\<close> and \<^verbatim>\<open>src/src/protocol.cpp\<close>: the
  enumerations, the request classes as records that extend each other the way the classes
  inherit, the response classes, and the two variants \<open>AnyPacket\<close> that travel through the
  queues.
\<close>

section \<open>namespace Request\<close>

datatype Timing = Immediate | FrameEnd | MemoryAccess | GPUAccess | SpecialAccess

datatype Method =
    Method_Command | Method_MemoryRead | Method_MemoryWrite | Method_GPURead | Method_GPUWrite
  | Method_SpecialRead | Method_SpecialWrite

datatype Sync = Blocking | NonBlocking

datatype Function = Once | Conditional | Callback

datatype CommandType =
    Continue | CancelCallback | ClearCPUCache | SaveState | LoadState | PauseEmu | ResumeEmu
  | LoadRom | CloseRom | ResetRom | CreateOverlay | DrawOverlay

record request_packet =
  packet_id :: u32
  packet_method :: Method
  packet_timing :: Timing
  packet_sync :: Sync
  packet_function :: Function

definition request_packet_make ::
    "u32 \<Rightarrow> Method \<Rightarrow> Timing \<Rightarrow> Sync \<Rightarrow> Function \<Rightarrow> request_packet" where
  "request_packet_make ident meth timing sync func =
     \<lparr>packet_id = ident, packet_method = meth, packet_timing = timing, packet_sync = sync,
      packet_function = func\<rparr>"

record memory_write = request_packet +
  write_address :: u64
  write_data :: "u8 list"

definition memory_write_make ::
    "u32 \<Rightarrow> Timing \<Rightarrow> Sync \<Rightarrow> Function \<Rightarrow> u64 \<Rightarrow> u8 list \<Rightarrow> memory_write" where
  "memory_write_make ident timing sync func address data =
     request_packet.extend (request_packet_make ident Method_MemoryWrite timing sync func)
       (memory_write.fields address data)"

record memory_read = request_packet +
  read_address :: u64
  read_length :: u64

definition memory_read_make ::
    "u32 \<Rightarrow> Timing \<Rightarrow> Sync \<Rightarrow> Function \<Rightarrow> u64 \<Rightarrow> u64 \<Rightarrow> memory_read" where
  "memory_read_make ident timing sync func address len =
     request_packet.extend (request_packet_make ident Method_MemoryRead timing sync func)
       (memory_read.fields address len)"

record command_packet = request_packet +
  command_type :: CommandType

record save_state_command = command_packet +
  save_slot :: u16

record load_state_command = command_packet +
  load_slot :: u16

text \<open>
  \<open>Request::AnyPacket\<close>; \<open>polymorphic_get<Packet>\<close> yields the base part of whichever
  alternative is held.
\<close>

datatype request =
    Req_Packet request_packet
  | Req_MemoryRead memory_read
  | Req_MemoryWrite memory_write
  | Req_SaveState save_state_command
  | Req_LoadState load_state_command

fun request_base :: "request \<Rightarrow> request_packet" where
  "request_base (Req_Packet p) = p"
| "request_base (Req_MemoryRead p) = request_packet.truncate p"
| "request_base (Req_MemoryWrite p) = request_packet.truncate p"
| "request_base (Req_SaveState p) = request_packet.truncate p"
| "request_base (Req_LoadState p) = request_packet.truncate p"

text \<open>The comparison operators of the request classes.\<close>

definition packet_eq :: "'a request_packet_scheme \<Rightarrow> 'b request_packet_scheme \<Rightarrow> bool" where
  "packet_eq p q \<longleftrightarrow>
     (packet_id p, packet_method p, packet_timing p, packet_sync p, packet_function p) =
     (packet_id q, packet_method q, packet_timing q, packet_sync q, packet_function q)"

definition memory_write_eq :: "memory_write \<Rightarrow> memory_write \<Rightarrow> bool" where
  "memory_write_eq p q \<longleftrightarrow>
     packet_eq p q \<and> (write_address p, write_data p) = (write_address q, write_data q)"

definition memory_read_eq :: "memory_read \<Rightarrow> memory_read \<Rightarrow> bool" where
  "memory_read_eq p q \<longleftrightarrow>
     packet_eq p q \<and> (read_address p, read_length p) = (read_address q, read_length q)"

section \<open>namespace Response\<close>

datatype ErrorCode = None_Error | Mismatch | InvalidHeader | Unsupported

fun error_code :: "ErrorCode \<Rightarrow> u32" where
  "error_code None_Error = 0"
| "error_code Mismatch = 1"
| "error_code InvalidHeader = 2"
| "error_code Unsupported = 3"

record response_error =
  err_code :: u32
  err_message :: string

definition NoneError :: response_error where
  "NoneError = \<lparr>err_code = error_code None_Error, err_message = ''Sentinal value''\<rparr>"

definition MismatchError :: response_error where
  "MismatchError = \<lparr>err_code = error_code Mismatch,
     err_message = ''Client version and server version does not match''\<rparr>"

definition InvalidHeaderError :: response_error where
  "InvalidHeaderError = \<lparr>err_code = error_code InvalidHeader, err_message = ''Request was malformed''\<rparr>"

definition UnsupportedError :: response_error where
  "UnsupportedError = \<lparr>err_code = error_code Unsupported, err_message = ''Unsupported operation''\<rparr>"

record response_packet =
  response_id :: u32
  response_err :: response_error

definition response_packet_make :: "u32 \<Rightarrow> response_error \<Rightarrow> response_packet" where
  "response_packet_make ident err = \<lparr>response_id = ident, response_err = err\<rparr>"

record memory_read_response = response_packet +
  response_result :: "u8 list"

definition memory_read_response_make :: "u32 \<Rightarrow> u8 list \<Rightarrow> memory_read_response" where
  "memory_read_response_make ident result =
     response_packet.extend (response_packet_make ident NoneError)
       (memory_read_response.fields result)"

text \<open>\<open>Response::MemoryWrite\<close> adds no member to \<open>Response::Packet\<close>.\<close>

type_synonym memory_write_response = response_packet

definition memory_write_response_make :: "u32 \<Rightarrow> memory_write_response" where
  "memory_write_response_make ident = response_packet_make ident NoneError"

datatype response =
    Resp_Packet response_packet
  | Resp_MemoryRead memory_read_response
  | Resp_MemoryWrite memory_write_response

fun response_ident :: "response \<Rightarrow> u32" where
  "response_ident (Resp_Packet p) = response_id p"
| "response_ident (Resp_MemoryRead p) = response_id p"
| "response_ident (Resp_MemoryWrite p) = response_id p"

section \<open>Facts about the messages\<close>

lemma packet_eq_iff: "packet_eq p q \<longleftrightarrow> request_packet.truncate p = request_packet.truncate q"
  by (auto simp: packet_eq_def request_packet.defs)

lemma memory_write_eq_iff: "memory_write_eq p q \<longleftrightarrow> p = q"
  by (cases p; cases q) (auto simp: memory_write_eq_def packet_eq_def)

lemma memory_read_eq_iff: "memory_read_eq p q \<longleftrightarrow> p = q"
  by (cases p; cases q) (auto simp: memory_read_eq_def packet_eq_def)

lemma memory_write_make_simps [simp]:
  "packet_id (memory_write_make i t s f a d) = i"
  "packet_method (memory_write_make i t s f a d) = Method_MemoryWrite"
  "packet_timing (memory_write_make i t s f a d) = t"
  "packet_sync (memory_write_make i t s f a d) = s"
  "packet_function (memory_write_make i t s f a d) = f"
  "write_address (memory_write_make i t s f a d) = a"
  "write_data (memory_write_make i t s f a d) = d"
  by (simp_all add: memory_write_make_def request_packet_make_def request_packet.defs memory_write.defs)

lemma memory_read_make_simps [simp]:
  "packet_id (memory_read_make i t s f a n) = i"
  "packet_method (memory_read_make i t s f a n) = Method_MemoryRead"
  "packet_timing (memory_read_make i t s f a n) = t"
  "packet_sync (memory_read_make i t s f a n) = s"
  "packet_function (memory_read_make i t s f a n) = f"
  "read_address (memory_read_make i t s f a n) = a"
  "read_length (memory_read_make i t s f a n) = n"
  by (simp_all add: memory_read_make_def request_packet_make_def request_packet.defs memory_read.defs)

lemma memory_read_response_make_simps [simp]:
  "response_id (memory_read_response_make i r) = i"
  "response_err (memory_read_response_make i r) = NoneError"
  "response_result (memory_read_response_make i r) = r"
  by (simp_all add: memory_read_response_make_def response_packet_make_def response_packet.defs
      memory_read_response.defs)

lemma memory_write_response_make_simps [simp]:
  "response_id (memory_write_response_make i) = i"
  "response_err (memory_write_response_make i) = NoneError"
  by (simp_all add: memory_write_response_make_def response_packet_make_def)

lemma request_base_simps [simp]:
  "packet_id (request_packet.truncate p) = packet_id p"
  "packet_method (request_packet.truncate p) = packet_method p"
  "packet_timing (request_packet.truncate p) = packet_timing p"
  "packet_sync (request_packet.truncate p) = packet_sync p"
  "packet_function (request_packet.truncate p) = packet_function p"
  by (simp_all add: request_packet.defs)

end
