(* ===== verification/Float64.thy ===== *)
theory Float64
  imports Prelude
begin

text \<open>
  The C++ type \<open>double\<close> (\<open>number_float_t\<close> of the JSON library) as far as the program uses
  it: conversion from decimal text with \<open>std::strtod\<close>, conversion from integers,
  comparison, \<open>std::isfinite\<close> and truncation to an unsigned integer. A finite value is a
  sign, a natural significand and a binary exponent; conversions round to nearest, ties to
  even, with the significand of 53 bits and the exponent range of IEEE 754 binary64.
\<close>

datatype f64 =
    Finite bool int int \<comment> \<open>sign (true: negative), significand, exponent of 2\<close>
  | Infinite bool

definition isfinite :: "f64 \<Rightarrow> bool" where
  "isfinite x = (case x of Finite _ _ _ \<Rightarrow> True | Infinite _ \<Rightarrow> False)"

text \<open>The exponent of the leading binary digit of a positive number.\<close>

function floor_log2 :: "int \<Rightarrow> int" where
  "floor_log2 n = (if n < 2 then 0 else 1 + floor_log2 (n div 2))"
  by pat_completeness auto
termination
  by (relation "measure nat") auto

declare floor_log2.simps [simp del]

text \<open>\<open>n * 2 ^ e\<close> for an integer \<open>n\<close>, as numerator and denominator.\<close>

definition scale2 :: "int \<Rightarrow> int \<Rightarrow> int \<times> int" where
  "scale2 n e = (if 0 \<le> e then (n * 2 ^ nat e, 1) else (n, 2 ^ nat (- e)))"

definition div_half_even :: "int \<Rightarrow> int \<Rightarrow> int" where
  "div_half_even n d =
     (let q = n div d; r = n mod d
      in if d < 2 * r \<or> (2 * r = d \<and> odd q) then q + 1 else q)"

text \<open>The \<open>double\<close> nearest to \<open>num / den\<close>, for \<open>num \<ge> 0\<close> and \<open>den > 0\<close>.\<close>

definition round_f64 :: "bool \<Rightarrow> int \<Rightarrow> int \<Rightarrow> f64" where
  "round_f64 neg num den =
     (if num = 0 then Finite neg 0 0
      else let k0 = floor_log2 num - floor_log2 den;
               (a, b) = scale2 den k0;
               k = (if a \<le> num * b then k0 else k0 - 1);
               e = max (k - 52) (- 1074);
               (c, d) = scale2 num (- e);
               m = div_half_even c (d * den)
           in if 2 ^ 1024 \<le> (if 0 \<le> e then m * 2 ^ nat e else m) then Infinite neg
              else Finite neg m e)"

definition f64_of_int :: "int \<Rightarrow> f64" where
  "f64_of_int i = round_f64 (i < 0) \<bar>i\<bar> 1"

text \<open>Equality of two \<open>double\<close> values: the zeros of both signs are equal.\<close>

fun f64_eq :: "f64 \<Rightarrow> f64 \<Rightarrow> bool" where
  "f64_eq (Finite s m e) (Finite s' m' e') =
     (let (a, b) = scale2 m e; (c, d) = scale2 m' e'
      in a * d = c * b \<and> (m = 0 \<or> s = s'))"
| "f64_eq (Infinite s) (Infinite s') = (s = s')"
| "f64_eq _ _ = False"

text \<open>
  \<open>static_cast\<close> to an unsigned type of \<open>n\<close> bits: the value truncated towards zero, and
  undefined behaviour (\<^term>\<open>None\<close>) when the truncated value is not representable.
\<close>

definition f64_to_unsigned :: "nat \<Rightarrow> f64 \<Rightarrow> int option" where
  "f64_to_unsigned n x =
     (case x of
        Infinite _ \<Rightarrow> None
      | Finite s m e \<Rightarrow>
          let (a, b) = scale2 m e; t = a div b
          in if t < 2 ^ n \<and> (s \<longrightarrow> t = 0) then Some t else None)"

text \<open>
  Decimal digits, shared by the conversions \<open>strtod\<close>, \<open>strtoull\<close> and \<open>strtoll\<close>.
\<close>

definition is_digit :: "char \<Rightarrow> bool" where
  "is_digit c \<longleftrightarrow> 48 \<le> (of_char c :: int) \<and> (of_char c :: int) \<le> 57"

definition digit_value :: "char \<Rightarrow> int" where
  "digit_value c = of_char c - 48"

definition digits_value :: "string \<Rightarrow> int" where
  "digits_value s = foldl (\<lambda>n c. 10 * n + digit_value c) 0 s"

definition split_sign :: "string \<Rightarrow> bool \<times> string" where
  "split_sign s =
     (case s of [] \<Rightarrow> (False, [])
      | c # cs \<Rightarrow> if c = CHR ''-'' then (True, cs)
                  else if c = CHR ''+'' then (False, cs) else (False, s))"

text \<open>
  \<open>std::strtod\<close> on a complete decimal literal: an optional minus sign, digits, optionally a
  decimal point and digits, optionally an exponent. The literals the lexer builds use the
  decimal point of the C locale.
\<close>

definition strtod :: "string \<Rightarrow> f64" where
  "strtod s =
     (let (neg, s1) = split_sign s;
          int_part = takeWhile is_digit s1;
          s2 = dropWhile is_digit s1;
          (frac, s3) = (case s2 of c # cs \<Rightarrow>
                          if c = CHR ''.'' then (takeWhile is_digit cs, dropWhile is_digit cs)
                          else ([], s2)
                        | [] \<Rightarrow> ([], []));
          ex = (case s3 of c # cs \<Rightarrow>
                  if c = CHR ''e'' \<or> c = CHR ''E'' then
                    (let (eneg, ds) = split_sign cs; v = digits_value (takeWhile is_digit ds)
                     in if eneg then - v else v)
                  else 0
                | [] \<Rightarrow> 0);
          sig = digits_value (int_part @ frac);
          p = ex - int (length frac)
      in if 0 \<le> p then round_f64 neg (sig * 10 ^ nat p) 1
         else round_f64 neg sig (10 ^ nat (- p)))"

end
