(* ===== verification/Json_Value.thy ===== *)
theory Json_Value
  imports Float64 "HOL-Library.List_Lexorder" "HOL-Library.Char_ord"
begin

text \<open>
  The JSON values of \<^verbatim>\<open>src/externals/json/nlohmann/json.hpp\<close> (class \<open>basic_json\<close>) and
  the operations on them that \<^verbatim>\<open>src/src/json_protocol.cpp\<close> calls: checked access with
  \<open>at\<close>, \<open>operator[]\<close> on a key, comparison, construction from a braced list, and the
  conversions behind \<open>get_to\<close>. An object is a \<open>std::map\<close>, here the association list of its
  entries in iteration order, that is sorted by key; the locale \<open>std_map\<close> is what the rest of
  the library uses of it.
\<close>

section \<open>Exceptions\<close>

datatype json_exception =
    parse_error nat nat string \<comment> \<open>id, byte position, \<open>what()\<close>\<close>
  | type_error nat string \<comment> \<open>id, \<open>what()\<close>\<close>
  | out_of_range nat string \<comment> \<open>id, \<open>what()\<close>\<close>
  | undefined_behaviour string \<comment> \<open>not an exception: the C++ standard gives no meaning\<close>

text \<open>\<open>std::to_string\<close> of an unsigned integer.\<close>

fun to_string :: "nat \<Rightarrow> string" where
  "to_string n = (if n < 10 then [char_of (48 + n)] else to_string (n div 10) @ [char_of (48 + n mod 10)])"

declare to_string.simps [simp del]

definition exception_name :: "string \<Rightarrow> nat \<Rightarrow> string" where
  "exception_name ename ident = ''[json.exception.'' @ ename @ ''.'' @ to_string ident @ ''] ''"

definition type_error_create :: "nat \<Rightarrow> string \<Rightarrow> json_exception" where
  "type_error_create ident what_arg = type_error ident (exception_name ''type_error'' ident @ what_arg)"

definition out_of_range_create :: "nat \<Rightarrow> string \<Rightarrow> json_exception" where
  "out_of_range_create ident what_arg = out_of_range ident (exception_name ''out_of_range'' ident @ what_arg)"

section \<open>std::map as a sorted association list\<close>

fun map_assign :: "'k::linorder \<Rightarrow> 'v \<Rightarrow> ('k \<times> 'v) list \<Rightarrow> ('k \<times> 'v) list" where
  "map_assign k v [] = [(k, v)]"
| "map_assign k v ((k', v') # m) =
     (if k < k' then (k, v) # (k', v') # m
      else if k = k' then (k, v) # m
      else (k', v') # map_assign k v m)"

definition map_emplace :: "'k::linorder \<Rightarrow> 'v \<Rightarrow> ('k \<times> 'v) list \<Rightarrow> ('k \<times> 'v) list" where
  "map_emplace k v m = (case map_of m k of None \<Rightarrow> map_assign k v m | Some _ \<Rightarrow> m)"

definition map_ok :: "('k::linorder \<times> 'v) list \<Rightarrow> bool" where
  "map_ok m \<longleftrightarrow> sorted_wrt (<) (map fst m)"

section \<open>Values\<close>

datatype json =
    Null
  | Object "(string \<times> json) list"
  | Array "json list"
  | String string
  | Boolean bool
  | Number_integer s64
  | Number_unsigned u64
  | Number_float f64
  | Discarded

definition type_name :: "json \<Rightarrow> string" where
  "type_name j =
     (case j of Null \<Rightarrow> ''null'' | Object _ \<Rightarrow> ''object'' | Array _ \<Rightarrow> ''array''
      | String _ \<Rightarrow> ''string'' | Boolean _ \<Rightarrow> ''boolean'' | Discarded \<Rightarrow> ''discarded''
      | _ \<Rightarrow> ''number'')"

definition json_at :: "json \<Rightarrow> string \<Rightarrow> json_exception + json" where
  "json_at j key =
     (case j of
        Object m \<Rightarrow>
          (case map_of m key of
             Some v \<Rightarrow> Inr v
           | None \<Rightarrow> Inl (out_of_range_create 403 (''key '' @ [CHR 0x27] @ key @ [CHR 0x27] @ '' not found'')))
      | _ \<Rightarrow> Inl (type_error_create 304 (''cannot use at() with '' @ type_name j)))"

text \<open>
  \<open>operator[]\<close> with a key on a value that is not \<open>const\<close>: a null value becomes an empty
  object and a missing key is inserted with a null value. The result is the value after
  that, in which the entry of the key can be read (\<open>subscript_get\<close>) or assigned
  (\<open>subscript_set\<close>).
\<close>

definition subscript :: "json \<Rightarrow> string \<Rightarrow> json_exception + (string \<times> json) list" where
  "subscript j key =
     (case j of
        Null \<Rightarrow> Inr (map_emplace key Null [])
      | Object m \<Rightarrow> Inr (map_emplace key Null m)
      | _ \<Rightarrow> Inl (type_error_create 305
               (''cannot use operator[] with a string argument with '' @ type_name j)))"

definition subscript_get :: "json \<Rightarrow> string \<Rightarrow> json_exception + json \<times> json" where
  "subscript_get j key =
     bindr (subscript j key) (\<lambda>m. Inr (the (map_of m key), Object m))"

definition subscript_set :: "json \<Rightarrow> string \<Rightarrow> json \<Rightarrow> json_exception + json" where
  "subscript_set j key v = bindr (subscript j key) (\<lambda>m. Inr (Object (map_assign key v m)))"

text \<open>
  \<open>operator==\<close>. Numbers of different types are compared after a conversion of one of them;
  an unsigned number is converted to a signed one bit by bit.
\<close>

definition json_eq_number :: "json \<Rightarrow> json \<Rightarrow> bool" where
  "json_eq_number lhs rhs =
     (case (lhs, rhs) of
        (Number_integer a, Number_float b) \<Rightarrow> f64_eq (f64_of_int (sint a)) b
      | (Number_float a, Number_integer b) \<Rightarrow> f64_eq a (f64_of_int (sint b))
      | (Number_unsigned a, Number_float b) \<Rightarrow> f64_eq (f64_of_int (uint a)) b
      | (Number_float a, Number_unsigned b) \<Rightarrow> f64_eq a (f64_of_int (uint b))
      | (Number_unsigned a, Number_integer b) \<Rightarrow> a = b
      | (Number_integer a, Number_unsigned b) \<Rightarrow> a = b
      | _ \<Rightarrow> False)"

fun json_eq :: "json \<Rightarrow> json \<Rightarrow> bool"
  and json_eq_list :: "json list \<Rightarrow> json list \<Rightarrow> bool"
  and json_eq_map :: "(string \<times> json) list \<Rightarrow> (string \<times> json) list \<Rightarrow> bool" where
  "json_eq (Array xs) rhs = (case rhs of Array ys \<Rightarrow> json_eq_list xs ys | _ \<Rightarrow> False)"
| "json_eq (Object m) rhs = (case rhs of Object n \<Rightarrow> json_eq_map m n | _ \<Rightarrow> False)"
| "json_eq Null rhs = (rhs = Null)"
| "json_eq (String s) rhs = (rhs = String s)"
| "json_eq (Boolean a) rhs = (rhs = Boolean a)"
| "json_eq (Number_integer a) rhs =
     (case rhs of Number_integer b \<Rightarrow> a = b | _ \<Rightarrow> json_eq_number (Number_integer a) rhs)"
| "json_eq (Number_unsigned a) rhs =
     (case rhs of Number_unsigned b \<Rightarrow> a = b | _ \<Rightarrow> json_eq_number (Number_unsigned a) rhs)"
| "json_eq (Number_float a) rhs =
     (case rhs of Number_float b \<Rightarrow> f64_eq a b | _ \<Rightarrow> json_eq_number (Number_float a) rhs)"
| "json_eq Discarded rhs = False"
| "json_eq_list [] ys = (ys = [])"
| "json_eq_list (x # xs) ys = (case ys of [] \<Rightarrow> False | y # ys' \<Rightarrow> json_eq x y \<and> json_eq_list xs ys')"
| "json_eq_map [] n = (n = [])"
| "json_eq_map ((k, x) # m) n =
     (case n of [] \<Rightarrow> False | (l, y) # n' \<Rightarrow> k = l \<and> json_eq x y \<and> json_eq_map m n')"

section \<open>Construction from a braced list\<close>

definition is_pair_element :: "json \<Rightarrow> bool" where
  "is_pair_element e = (case e of Array [String _, _] \<Rightarrow> True | _ \<Rightarrow> False)"

fun emplace_element :: "(string \<times> json) list \<Rightarrow> json \<Rightarrow> (string \<times> json) list" where
  "emplace_element m (Array [String k, v]) = map_emplace k v m"
| "emplace_element m _ = m"

text \<open>\<open>basic_json(initializer_list_t)\<close> with type deduction, as a braced list calls it.\<close>

definition init_list :: "json list \<Rightarrow> json" where
  "init_list init =
     (if list_all is_pair_element init then Object (foldl emplace_element [] init)
      else Array init)"

section \<open>Conversions\<close>

text \<open>
  \<open>get_arithmetic_value\<close> at \<open>number_unsigned_t\<close>, which is what \<open>get_to\<close> on a \<open>u64\<close> calls.
  A negative integer wraps around.
\<close>

definition get_to_u64 :: "json \<Rightarrow> json_exception + u64" where
  "get_to_u64 j =
     (case j of
        Number_unsigned n \<Rightarrow> Inr n
      | Number_integer n \<Rightarrow> Inr n
      | Number_float x \<Rightarrow>
          (case f64_to_unsigned 64 x of
             Some t \<Rightarrow> Inr (of_int t)
           | None \<Rightarrow> Inl (undefined_behaviour ''double out of range of uint64_t''))
      | _ \<Rightarrow> Inl (type_error_create 302 (''type must be number, but is '' @ type_name j)))"

text \<open>
  The arithmetic overload of \<open>from_json\<close> at \<open>u32\<close>, a type the library has no member for: it
  keeps the low 32 bits and also accepts a boolean.
\<close>

definition get_to_u32 :: "json \<Rightarrow> json_exception + u32" where
  "get_to_u32 j =
     (case j of
        Number_unsigned n \<Rightarrow> Inr (ucast n)
      | Number_integer n \<Rightarrow> Inr (ucast n)
      | Number_float x \<Rightarrow>
          (case f64_to_unsigned 32 x of
             Some t \<Rightarrow> Inr (of_int t)
           | None \<Rightarrow> Inl (undefined_behaviour ''double out of range of uint32_t''))
      | Boolean b \<Rightarrow> Inr (of_bool b)
      | _ \<Rightarrow> Inl (type_error_create 302 (''type must be number, but is '' @ type_name j)))"

definition get_to_string :: "json \<Rightarrow> json_exception + string" where
  "get_to_string j =
     (case j of
        String s \<Rightarrow> Inr s
      | _ \<Rightarrow> Inl (type_error_create 302 (''type must be string, but is '' @ type_name j)))"

text \<open>
  The two functions the macro \<open>NLOHMANN_JSON_SERIALIZE_ENUM\<close> defines, over its table: an
  enumerator or a text that is not in the table is mapped to the first entry.
\<close>

definition enum_to_json :: "('e \<times> string) list \<Rightarrow> 'e \<Rightarrow> json" where
  "enum_to_json tab e =
     (case find (\<lambda>(x, s). x = e) tab of
        Some (_, s) \<Rightarrow> String s
      | None \<Rightarrow> String (snd (hd tab)))"

definition enum_from_json :: "('e \<times> string) list \<Rightarrow> json \<Rightarrow> 'e" where
  "enum_from_json tab j =
     (case find (\<lambda>(x, s). json_eq (String s) j) tab of
        Some (x, _) \<Rightarrow> x
      | None \<Rightarrow> fst (hd tab))"

definition u32_to_json :: "u32 \<Rightarrow> json" where
  "u32_to_json n = Number_unsigned (ucast n)"

definition u64_to_json :: "u64 \<Rightarrow> json" where
  "u64_to_json n = Number_unsigned n"

section \<open>The map interface\<close>

text \<open>
  What the library relies on from \<open>std::map\<close>: lookup after assignment and after
  \<open>emplace\<close>, which does not overwrite.
\<close>

locale std_map =
  fixes lookup :: "'m \<Rightarrow> 'k \<Rightarrow> 'v option"
    and assign :: "'k \<Rightarrow> 'v \<Rightarrow> 'm \<Rightarrow> 'm"
    and emplace :: "'k \<Rightarrow> 'v \<Rightarrow> 'm \<Rightarrow> 'm"
    and ok :: "'m \<Rightarrow> bool"
  assumes lookup_assign: "ok m \<Longrightarrow> lookup (assign k v m) = (lookup m)(k \<mapsto> v)"
    and lookup_emplace:
      "ok m \<Longrightarrow> lookup (emplace k v m) = (if lookup m k = None then (lookup m)(k \<mapsto> v) else lookup m)"
    and ok_assign: "ok m \<Longrightarrow> ok (assign k v m)"
    and ok_emplace: "ok m \<Longrightarrow> ok (emplace k v m)"
begin

lemma lookup_emplace_same: "ok m \<Longrightarrow> lookup (emplace k v m) k \<noteq> None"
  by (auto simp: lookup_emplace)

lemma lookup_assign_emplace:
  "ok m \<Longrightarrow> lookup (assign k w (emplace k v m)) = (lookup m)(k \<mapsto> w)"
  by (auto simp: lookup_assign lookup_emplace ok_emplace)

lemma emplace_all:
  assumes "ok m"
  shows "ok (foldl (\<lambda>m (k, v). emplace k v m) m kvs)
     \<and> lookup (foldl (\<lambda>m (k, v). emplace k v m) m kvs) = map_of kvs ++ lookup m"
  using assms
proof (induction kvs arbitrary: m)
  case Nil
  then show ?case by simp
next
  case (Cons kv kvs)
  obtain k v where kv: "kv = (k, v)" by (cases kv)
  have "lookup (foldl (\<lambda>m (k, v). emplace k v m) (emplace k v m) kvs)
      = map_of kvs ++ lookup (emplace k v m)"
    using Cons.IH [of "emplace k v m"] Cons.prems by (simp add: ok_emplace)
  also have "\<dots> = map_of (kv # kvs) ++ lookup m"
    using Cons.prems
    by (auto simp: kv lookup_emplace map_add_def fun_eq_iff split: option.splits)
  finally show ?case
    using Cons.IH [of "emplace k v m"] Cons.prems by (simp add: kv ok_emplace fun_upd_def)
qed

end

lemma map_assign_fst: "fst ` set (map_assign k v m) = insert k (fst ` set m)"
  by (induction k v m rule: map_assign.induct) (auto simp: insert_commute)

lemma map_ok_Cons:
  "map_ok ((k, v) # m) \<longleftrightarrow> map_ok m \<and> (\<forall>k' \<in> fst ` set m. k < k')"
  by (auto simp: map_ok_def)

lemma map_ok_Nil [simp]: "map_ok []"
  by (simp add: map_ok_def)

lemma map_ok_assign: "map_ok m \<Longrightarrow> map_ok (map_assign k v m)"
proof (induction m)
  case (Cons kv m)
  obtain k' v' where kv: "kv = (k', v')" by (cases kv)
  with Cons show ?case
    using map_assign_fst [of k v m] by (auto simp: map_ok_Cons)
qed (simp add: map_ok_Cons)

lemma map_of_assign: "map_ok m \<Longrightarrow> map_of (map_assign k v m) = (map_of m)(k \<mapsto> v)"
  by (induction m) (auto simp: map_ok_Cons fun_eq_iff)

interpretation json_map: std_map map_of map_assign map_emplace map_ok
  by unfold_locales
     (auto simp: map_of_assign map_ok_assign map_emplace_def split: option.splits)

lemma map_assign_last:
  "\<forall>k' \<in> fst ` set m. k' < k \<Longrightarrow> map_assign k v m = m @ [(k, v)]"
  by (induction m) auto

end
