(* ===== verification/Utf8.thy ===== *)
theory Utf8
  imports Prelude
begin

text \<open>
  UTF-8: the well-formed byte sequences of RFC 3629 as a specification, and the table-driven
  automaton \<open>decode\<close> of the JSON serializer
  (\<^verbatim>\<open>src/externals/json/nlohmann/json.hpp\<close>), proved to follow the specification byte by
  byte. A byte is the natural number of its value.
\<close>

section \<open>Specification\<close>

text \<open>
  The ranges of the continuation bytes after a first byte, \<^term>\<open>None\<close> when no sequence
  starts with it (RFC 3629, section 4).
\<close>

definition utf8_ranges :: "int \<Rightarrow> (int \<times> int) list option" where
  "utf8_ranges b =
     (if 0 \<le> b \<and> b \<le> 0x7F then Some []
      else if 0xC2 \<le> b \<and> b \<le> 0xDF then Some [(0x80, 0xBF)]
      else if b = 0xE0 then Some [(0xA0, 0xBF), (0x80, 0xBF)]
      else if 0xE1 \<le> b \<and> b \<le> 0xEC \<or> b = 0xEE \<or> b = 0xEF then Some [(0x80, 0xBF), (0x80, 0xBF)]
      else if b = 0xED then Some [(0x80, 0x9F), (0x80, 0xBF)]
      else if b = 0xF0 then Some [(0x90, 0xBF), (0x80, 0xBF), (0x80, 0xBF)]
      else if 0xF1 \<le> b \<and> b \<le> 0xF3 then Some [(0x80, 0xBF), (0x80, 0xBF), (0x80, 0xBF)]
      else if b = 0xF4 then Some [(0x80, 0x8F), (0x80, 0xBF), (0x80, 0xBF)]
      else None)"

text \<open>The bytes a list of ranges matches, and what follows them.\<close>

fun take_ranges :: "(int \<times> int) list \<Rightarrow> string \<Rightarrow> (string \<times> string) option" where
  "take_ranges [] s = Some ([], s)"
| "take_ranges ((lo, hi) # rs) [] = None"
| "take_ranges ((lo, hi) # rs) (c # s) =
     (if lo \<le> of_char c \<and> of_char c \<le> hi
      then map_option (\<lambda>(u, v). (c # u, v)) (take_ranges rs s) else None)"

fun utf8_valid_pending :: "(int \<times> int) list \<Rightarrow> string \<Rightarrow> bool" where
  "utf8_valid_pending rs [] = (rs = [])"
| "utf8_valid_pending ((lo, hi) # rs) (c # s) =
     (lo \<le> of_char c \<and> of_char c \<le> hi \<and> utf8_valid_pending rs s)"
| "utf8_valid_pending [] (c # s) =
     (case utf8_ranges (of_char c) of Some rs \<Rightarrow> utf8_valid_pending rs s | None \<Rightarrow> False)"

abbreviation utf8_valid :: "string \<Rightarrow> bool" where
  "utf8_valid \<equiv> utf8_valid_pending []"

section \<open>The automaton\<close>

definition UTF8_ACCEPT :: nat where "UTF8_ACCEPT = 0"

definition UTF8_REJECT :: nat where "UTF8_REJECT = 1"

definition utf8d :: "nat list" where
  "utf8d = 
    [0, 0, 0, 0, 0, 0, 0, 0, 0, 0, 0, 0, 0, 0, 0, 0, 0, 0, 0, 0, 0, 0, 0, 0, 0, 0, 0, 0, 0, 0, 0, 0,
     0, 0, 0, 0, 0, 0, 0, 0, 0, 0, 0, 0, 0, 0, 0, 0, 0, 0, 0, 0, 0, 0, 0, 0, 0, 0, 0, 0, 0, 0, 0, 0,
     0, 0, 0, 0, 0, 0, 0, 0, 0, 0, 0, 0, 0, 0, 0, 0, 0, 0, 0, 0, 0, 0, 0, 0, 0, 0, 0, 0, 0, 0, 0, 0,
     0, 0, 0, 0, 0, 0, 0, 0, 0, 0, 0, 0, 0, 0, 0, 0, 0, 0, 0, 0, 0, 0, 0, 0, 0, 0, 0, 0, 0, 0, 0, 0,
     1, 1, 1, 1, 1, 1, 1, 1, 1, 1, 1, 1, 1, 1, 1, 1, 9, 9, 9, 9, 9, 9, 9, 9, 9, 9, 9, 9, 9, 9, 9, 9,
     7, 7, 7, 7, 7, 7, 7, 7, 7, 7, 7, 7, 7, 7, 7, 7, 7, 7, 7, 7, 7, 7, 7, 7, 7, 7, 7, 7, 7, 7, 7, 7,
     8, 8, 2, 2, 2, 2, 2, 2, 2, 2, 2, 2, 2, 2, 2, 2, 2, 2, 2, 2, 2, 2, 2, 2, 2, 2, 2, 2, 2, 2, 2, 2,
     0xA, 0x3, 0x3, 0x3, 0x3, 0x3, 0x3, 0x3, 0x3, 0x3, 0x3, 0x3, 0x3, 0x4, 0x3, 0x3,
     0xB, 0x6, 0x6, 0x6, 0x5, 0x8, 0x8, 0x8, 0x8, 0x8, 0x8, 0x8, 0x8, 0x8, 0x8, 0x8,
     0x0, 0x1, 0x2, 0x3, 0x5, 0x8, 0x7, 0x1, 0x1, 0x1, 0x4, 0x6, 0x1, 0x1, 0x1, 0x1,
     1, 1, 1, 1, 1, 1, 1, 1, 1, 1, 1, 1, 1, 1, 1, 1, 1, 0, 1, 1, 1, 1, 1, 0, 1, 0, 1, 1, 1, 1, 1, 1,
     1, 2, 1, 1, 1, 1, 1, 2, 1, 2, 1, 1, 1, 1, 1, 1, 1, 1, 1, 1, 1, 1, 1, 2, 1, 1, 1, 1, 1, 1, 1, 1,
     1, 2, 1, 1, 1, 1, 1, 1, 1, 2, 1, 1, 1, 1, 1, 1, 1, 1, 1, 1, 1, 1, 1, 3, 1, 3, 1, 1, 1, 1, 1, 1,
     1, 3, 1, 1, 1, 1, 1, 3, 1, 3, 1, 1, 1, 1, 1, 1, 1, 3, 1, 1, 1, 1, 1, 1, 1, 1, 1, 1, 1, 1, 1, 1]"

definition decode :: "nat \<Rightarrow> u32 \<Rightarrow> nat \<Rightarrow> nat \<times> u32" where
  "decode state codep byte =
     (let type = utf8d ! byte;
          codep' = (if state \<noteq> UTF8_ACCEPT
                    then (of_nat byte AND 0x3f) OR push_bit 6 codep
                    else drop_bit type 0xFF AND of_nat byte)
      in (utf8d ! (256 + state * 16 + type), codep'))"

section \<open>The automaton follows the specification\<close>

text \<open>The continuation ranges each state of the automaton waits for.\<close>

definition state_ranges :: "nat \<Rightarrow> (int \<times> int) list" where
  "state_ranges st =
     (if st = 2 then [(0x80, 0xBF)]
      else if st = 3 then [(0x80, 0xBF), (0x80, 0xBF)]
      else if st = 4 then [(0xA0, 0xBF), (0x80, 0xBF)]
      else if st = 5 then [(0x80, 0x9F), (0x80, 0xBF)]
      else if st = 6 then [(0x90, 0xBF), (0x80, 0xBF), (0x80, 0xBF)]
      else if st = 7 then [(0x80, 0xBF), (0x80, 0xBF), (0x80, 0xBF)]
      else if st = 8 then [(0x80, 0x8F), (0x80, 0xBF), (0x80, 0xBF)]
      else [])"

definition byte_type :: "nat \<Rightarrow> nat" where
  "byte_type b =
     (if b \<le> 0x7F then 0 else if b \<le> 0x8F then 1 else if b \<le> 0x9F then 9 else if b \<le> 0xBF then 7
      else if b \<le> 0xC1 then 8 else if b \<le> 0xDF then 2 else if b = 0xE0 then 0xA else if b = 0xED then 4
      else if b \<le> 0xEF then 3 else if b = 0xF0 then 0xB else if b \<le> 0xF3 then 6 else if b = 0xF4 then 5
      else 8)"

lemma byte_type_check: "map byte_type [0..<256] = take 256 utf8d"
  by code_simp

lemma utf8d_byte: "b < 256 \<Longrightarrow> utf8d ! b = byte_type b"
  using arg_cong [OF byte_type_check, of "\<lambda>xs. xs ! b"] by simp

definition next_state :: "nat \<Rightarrow> nat \<Rightarrow> nat" where
  "next_state st t =
     (if st = 0 then
        (if t = 0 then 0 else if t = 2 then 2 else if t = 3 then 3 else if t = 4 then 5
         else if t = 5 then 8 else if t = 6 then 7 else if t = 0xA then 4 else if t = 0xB then 6 else 1)
      else if st = 2 then (if t = 1 \<or> t = 7 \<or> t = 9 then 0 else 1)
      else if st = 3 then (if t = 1 \<or> t = 7 \<or> t = 9 then 2 else 1)
      else if st = 4 then (if t = 7 then 2 else 1)
      else if st = 5 then (if t = 1 \<or> t = 9 then 2 else 1)
      else if st = 6 then (if t = 7 \<or> t = 9 then 3 else 1)
      else if st = 7 then (if t = 1 \<or> t = 7 \<or> t = 9 then 3 else 1)
      else if st = 8 then (if t = 1 then 3 else 1)
      else 1)"

lemma next_state_check:
  "list_all (\<lambda>st. list_all (\<lambda>t. utf8d ! (256 + st * 16 + t) = next_state st t) [0..<12]) [0..<9]"
  by code_simp

lemma byte_type_less: "byte_type b < 12"
  by (simp add: byte_type_def)

lemma utf8d_next:
  assumes "st < 9" and "b < 256"
  shows "utf8d ! (256 + st * 16 + utf8d ! b) = next_state st (byte_type b)"
  using next_state_check byte_type_less [of b] assms by (simp add: list_all_iff utf8d_byte)

lemma next_state_start:
  assumes "b < 256"
  shows "case utf8_ranges (int b) of
           Some rs \<Rightarrow> next_state 0 (byte_type b) \<notin> {1} \<and> next_state 0 (byte_type b) < 9
             \<and> state_ranges (next_state 0 (byte_type b)) = rs
         | None \<Rightarrow> next_state 0 (byte_type b) = 1"
  unfolding utf8_ranges_def byte_type_def next_state_def state_ranges_def using assms
  by simp

lemma next_state_step:
  assumes "b < 256" and "2 \<le> st" "st < 9"
  shows "\<exists>lo hi rs. state_ranges st = (lo, hi) # rs \<and>
    (if lo \<le> int b \<and> int b \<le> hi
     then next_state st (byte_type b) \<noteq> 1 \<and> next_state st (byte_type b) < 9
       \<and> state_ranges (next_state st (byte_type b)) = rs
     else next_state st (byte_type b) = 1)"
proof -
  from assms(2,3) have "st = 2 \<or> st = 3 \<or> st = 4 \<or> st = 5 \<or> st = 6 \<or> st = 7 \<or> st = 8" by arith
  then show ?thesis
    by (elim disjE) (simp_all add: byte_type_def next_state_def state_ranges_def)
qed

section \<open>The code point the automaton assembles\<close>

lemma append_six_bits:
  fixes c x :: u32
  assumes "unat c < 2 ^ 26"
  shows "unat ((x AND 63) OR push_bit 6 c) = unat x mod 64 + 64 * unat c"
proof -
  have m: "x AND 63 = take_bit 6 x"
    by (simp add: take_bit_eq_mask mask_eq_exp_minus_1)
  have "(x AND 63) OR push_bit 6 c = (x AND 63) + push_bit 6 c"
    by (rule disjunctive_add_eq_or [symmetric]) (simp add: m bit_eq_iff bit_simps)
  moreover have "unat (take_bit 6 x) = unat x mod 64"
    by (simp only: unsigned_take_bit_eq) (simp add: take_bit_eq_mod)
  moreover have "unat (push_bit 6 c) = 64 * unat c"
    using assms by (simp only: unsigned_push_bit_eq) (simp add: push_bit_eq_mult take_bit_eq_mod)
  ultimately show ?thesis
    using assms by (simp add: m unat_word_ariths)
qed

definition codep_ok :: "nat \<Rightarrow> nat \<Rightarrow> bool" where
  "codep_ok st n \<longleftrightarrow>
     (if st = 2 then 2 \<le> n \<and> n < 2 ^ 20 else if st = 3 then 1 \<le> n \<and> n < 2 ^ 14
      else if st = 5 then 1 \<le> n \<and> n < 2 ^ 4 else if st = 7 \<or> st = 8 then 1 \<le> n \<and> n < 2 ^ 3
      else st = 4 \<or> st = 6 \<longrightarrow> n = 0)"

lemma byte_type_cont:
  "byte_type b = 7 \<Longrightarrow> 32 \<le> b mod 64" "byte_type b = 9 \<Longrightarrow> 16 \<le> b mod 64"
proof -
  assume "byte_type b = 7"
  then have "0xA0 \<le> b" "b \<le> 0xBF" by (simp_all add: byte_type_def split: if_splits)
  then have "b mod 64 = b - 128" by (simp add: mod_if)
  with \<open>0xA0 \<le> b\<close> show "32 \<le> b mod 64" by simp
next
  assume "byte_type b = 9"
  then have "0x90 \<le> b" "b \<le> 0x9F" by (simp_all add: byte_type_def split: if_splits)
  then have "b mod 64 = b - 128" by (simp add: mod_if)
  with \<open>0x90 \<le> b\<close> show "16 \<le> b mod 64" by simp
qed

lemma codep_ok_step:
  assumes "2 \<le> st" "st < 9" "codep_ok st n"
  shows "codep_ok (next_state st (byte_type b)) (b mod 64 + 64 * n)"
proof -
  from assms(1,2) have "st = 2 \<or> st = 3 \<or> st = 4 \<or> st = 5 \<or> st = 6 \<or> st = 7 \<or> st = 8" by arith
  moreover have "b mod 64 < 64" by simp
  ultimately show ?thesis
    using assms(3) byte_type_cont [of b]
    by (elim disjE) (auto simp: codep_ok_def next_state_def)
qed

lemma lead_bits:
  assumes "b < 256"
  shows "unat (drop_bit t 0xFF AND of_nat b :: u32) = b mod 2 ^ (8 - t)"
proof -
  have "(0xFF :: u32) = mask 8" by (simp add: mask_eq_exp_minus_1)
  moreover have "drop_bit t (mask 8 :: u32) = mask (8 - t)"
    by (rule bit_word_eqI) (auto simp: bit_simps)
  ultimately have "drop_bit t 0xFF AND of_nat b = (take_bit (8 - t) (of_nat b) :: u32)"
    by (simp only: take_bit_eq_mask and.commute)
  moreover have "unat (of_nat b :: u32) = b" using assms by (simp add: unat_of_nat)
  ultimately show ?thesis
    by (simp only: unsigned_take_bit_eq) (simp add: take_bit_eq_mod)
qed

lemma codep_ok_start:
  assumes "b < 256"
  shows "codep_ok (next_state 0 (byte_type b)) (b mod 2 ^ (8 - byte_type b))"
proof -
  consider "b \<le> 0xC1 \<or> 0xF5 \<le> b" | "0xC2 \<le> b" "b \<le> 0xDF" | "0xE1 \<le> b" "b \<le> 0xEF" "b \<noteq> 0xED"
    | "b = 0xE0 \<or> b = 0xED \<or> b = 0xF0 \<or> b = 0xF1 \<or> b = 0xF2 \<or> b = 0xF3 \<or> b = 0xF4"
    by arith
  then show ?thesis
  proof cases
    case 1
    then have "byte_type b \<in> {0, 1, 7, 8, 9}" by (auto simp: byte_type_def)
    then show ?thesis by (elim insertE emptyE) (simp_all add: codep_ok_def next_state_def)
  next
    case 2
    then have "b mod 64 = b - 192" "byte_type b = 2" "2 \<le> b - 192 \<and> b - 192 < 1048576"
      using mod_offset [of 3 64 b] by (simp, simp add: byte_type_def, linarith)
    then show ?thesis by (simp add: codep_ok_def next_state_def)
  next
    case 3
    then have "b mod 32 = b - 224" "byte_type b = 3" "1 \<le> b - 224 \<and> b - 224 < 16384"
      using mod_offset [of 7 32 b] by (simp, simp add: byte_type_def, linarith)
    then show ?thesis by (simp add: codep_ok_def next_state_def)
  next
    case 4
    then show ?thesis
      by (elim disjE) (simp_all add: codep_ok_def next_state_def byte_type_def)
  qed
qed

lemma decode_start:
  assumes "b < 256" "decode 0 codep b = (st, codep')"
  shows "st = next_state 0 (byte_type b)" and "st = 0 \<Longrightarrow> codep' = of_nat b"
    and "codep_ok st (unat codep')"
proof -
  have st: "st = next_state 0 (byte_type b)" and c: "codep' = drop_bit (byte_type b) 0xFF AND of_nat b"
    using assms utf8d_next [of 0 b] by (auto simp: decode_def UTF8_ACCEPT_def Let_def utf8d_byte)
  show "st = next_state 0 (byte_type b)" by (rule st)
  show "codep_ok st (unat codep')"
    unfolding st c lead_bits [OF assms(1)] by (rule codep_ok_start [OF assms(1)])
  assume "st = 0"
  then have "byte_type b = 0" using st by (simp add: next_state_def split: if_splits)
  then have "unat codep' = b"
    unfolding c lead_bits [OF assms(1)] using assms(1) by simp
  then show "codep' = of_nat b" by auto
qed

lemma decode_step:
  assumes "b < 256" "2 \<le> st" "st < 9" "codep_ok st (unat codep)" "decode st codep b = (st', codep')"
  shows "st' = next_state st (byte_type b)" and "st' = 0 \<Longrightarrow> 0x80 \<le> unat codep'"
    and "codep_ok st' (unat codep')"
proof -
  from assms(2,3) have cases: "st = 2 \<or> st = 3 \<or> st = 4 \<or> st = 5 \<or> st = 6 \<or> st = 7 \<or> st = 8" by arith
  have lt: "unat codep < 2 ^ 26"
    using assms(4) cases by (elim disjE) (simp_all add: codep_ok_def)
  have b: "unat (of_nat b :: u32) = b" using assms(1) by (simp add: unat_of_nat)
  from assms(5,2) have st: "st' = next_state st (byte_type b)"
    and c: "unat codep' = b mod 64 + 64 * unat codep"
    using append_six_bits [OF lt, of "of_nat b"] utf8d_next [OF assms(3,1)]
    by (auto simp: decode_def UTF8_ACCEPT_def Let_def b)
  show "st' = next_state st (byte_type b)" by (rule st)
  show "codep_ok st' (unat codep')"
    unfolding st c by (rule codep_ok_step [OF assms(2-4)])
  assume "st' = 0"
  with st cases have "st = 2" by (elim disjE) (simp_all add: next_state_def split: if_splits)
  with assms(4) c show "0x80 \<le> unat codep'" by (simp add: codep_ok_def)
qed
end
