(* ===== verification/Json_Serializer.thy ===== *)
theory Json_Serializer
  imports Json_Value Utf8
begin

text \<open>
  The serializer of \<^verbatim>\<open>src/externals/json/nlohmann/json.hpp\<close> (class \<open>serializer\<close>): the
  compact form of \<open>dump\<close>, which is what \<open>basic_json::dump()\<close> without arguments calls, string
  escaping through the fixed \<open>string_buffer\<close> under the three error handlers, and the
  number formatting through the fixed \<open>number_buffer\<close>. A write that does not fit its buffer is
  the result \<^const>\<open>undefined_behaviour\<close>, so that a theorem that names the result also says
  that no write is out of bounds. The text of a \<open>double\<close> is the parameter \<open>dump_float\<close>.
\<close>

section \<open>Escaping strings\<close>

datatype error_handler_t = strict | replace | ignore

definition hex_digit :: "bool \<Rightarrow> nat \<Rightarrow> char" where
  "hex_digit upper n = (if n < 10 then char_of (48 + n) else char_of ((if upper then 55 else 87) + n))"

text \<open>The conversions \<open>%04x\<close> of a \<open>uint16_t\<close> and \<open>%.2X\<close> of a \<open>uint8_t\<close>.\<close>

definition format_04x :: "u16 \<Rightarrow> string" where
  "format_04x w =
     [hex_digit False (unat (drop_bit 12 w)), hex_digit False (unat (drop_bit 8 w AND 15)),
      hex_digit False (unat (drop_bit 4 w AND 15)), hex_digit False (unat (w AND 15))]"

definition format_2X :: "u8 \<Rightarrow> string" where
  "format_2X b = [hex_digit True (unat (drop_bit 4 b)), hex_digit True (unat (b AND 15))]"

text \<open>
  The local variables of \<open>dump_escaped\<close>. Of \<open>string_buffer\<close> only the first \<open>bytes\<close>
  characters are kept, so \<open>bytes\<close> is the length of the list; \<open>o_out\<close> is what has been
  written to the output adapter.
\<close>

record dump_state =
  utf8_state :: nat
  codepoint :: u32
  string_buffer :: string
  bytes_after_last_accept :: nat
  undumped_chars :: nat
  o_out :: string

definition string_buffer_size :: nat where "string_buffer_size = 512"

text \<open>
  Appends \<open>cs\<close> to the buffer; \<open>extra\<close> is the terminator \<open>snprintf\<close> writes behind them.
\<close>

definition buffer_put :: "string \<Rightarrow> nat \<Rightarrow> dump_state \<Rightarrow> json_exception + dump_state" where
  "buffer_put cs extra st =
     (if length (string_buffer st) + length cs + extra \<le> string_buffer_size
      then Inr (st\<lparr>string_buffer := string_buffer st @ cs\<rparr>)
      else Inl (undefined_behaviour ''string_buffer overflow''))"

text \<open>\<open>if (string_buffer.size() - bytes < 13)\<close>: write the buffer and reset the index.\<close>

definition buffer_flush :: "dump_state \<Rightarrow> dump_state" where
  "buffer_flush st =
     (if string_buffer_size - length (string_buffer st) < 13
      then st\<lparr>o_out := o_out st @ string_buffer st, string_buffer := []\<rparr>
      else st)"

text \<open>The characters written for a complete code point, and the terminator behind them.\<close>

definition escape_codepoint :: "bool \<Rightarrow> u32 \<Rightarrow> char \<Rightarrow> string \<times> nat" where
  "escape_codepoint ensure_ascii cp c =
     (if cp = 0x08 then ([CHR 0x5C, CHR ''b''], 0)
      else if cp = 0x09 then ([CHR 0x5C, CHR ''t''], 0)
      else if cp = 0x0A then ([CHR 0x5C, CHR ''n''], 0)
      else if cp = 0x0C then ([CHR 0x5C, CHR ''f''], 0)
      else if cp = 0x0D then ([CHR 0x5C, CHR ''r''], 0)
      else if cp = 0x22 then ([CHR 0x5C, CHR 0x22], 0)
      else if cp = 0x5C then ([CHR 0x5C, CHR 0x5C], 0)
      else if cp \<le> 0x1F \<or> ensure_ascii \<and> 0x7F \<le> cp then
        if cp \<le> 0xFFFF then (CHR 0x5C # CHR ''u'' # format_04x (ucast cp), 1)
        else (CHR 0x5C # CHR ''u'' # format_04x (ucast (0xD7C0 + drop_bit 10 cp))
              @ CHR 0x5C # CHR ''u'' # format_04x (ucast (0xDC00 + (cp AND 0x3FF))), 1)
      else ([c], 0))"

definition replacement :: "bool \<Rightarrow> string" where
  "replacement ensure_ascii =
     (if ensure_ascii then CHR 0x5C # ''ufffd'' else [CHR 0xEF, CHR 0xBF, CHR 0xBD])"

text \<open>The branch \<open>UTF8_ACCEPT\<close> of the loop body.\<close>

definition dump_accept :: "bool \<Rightarrow> char \<Rightarrow> dump_state \<Rightarrow> json_exception + dump_state" where
  "dump_accept ensure_ascii c st =
     (let (cs, extra) = escape_codepoint ensure_ascii (codepoint st) c
      in bindr (buffer_put cs extra st) (\<lambda>st1.
         let st2 = buffer_flush st1
         in Inr (st2\<lparr>bytes_after_last_accept := length (string_buffer st2), undumped_chars := 0\<rparr>)))"

text \<open>
  The branch \<open>UTF8_REJECT\<close>. The flag of the result is whether \<open>--i\<close> was executed, so that
  the byte is read again.
\<close>

definition dump_reject ::
    "error_handler_t \<Rightarrow> bool \<Rightarrow> nat \<Rightarrow> char \<Rightarrow> dump_state \<Rightarrow> json_exception + bool \<times> dump_state" where
  "dump_reject eh ensure_ascii i c st =
     (case eh of
        strict \<Rightarrow> Inl (type_error_create 316
           (''invalid UTF-8 byte at index '' @ to_string i @ '': 0x'' @ format_2X (byte_of_char c)))
      | _ \<Rightarrow>
          let again = 0 < undumped_chars st;
              st1 = st\<lparr>string_buffer := take (bytes_after_last_accept st) (string_buffer st)\<rparr>
          in bindr
               (if eh = replace then
                  bindr (buffer_put (replacement ensure_ascii) 0 st1) (\<lambda>st2.
                  let st3 = buffer_flush st2
                  in Inr (st3\<lparr>bytes_after_last_accept := length (string_buffer st3)\<rparr>))
                else Inr st1)
               (\<lambda>st4. Inr (again, st4\<lparr>undumped_chars := 0, utf8_state := UTF8_ACCEPT\<rparr>)))"

text \<open>The \<open>default\<close> branch: a code point is still incomplete.\<close>

definition dump_incomplete :: "bool \<Rightarrow> char \<Rightarrow> dump_state \<Rightarrow> json_exception + dump_state" where
  "dump_incomplete ensure_ascii c st =
     bindr (if ensure_ascii then Inr st else buffer_put [c] 0 st)
       (\<lambda>st1. Inr (st1\<lparr>undumped_chars := undumped_chars st1 + 1\<rparr>))"

definition dump_byte ::
    "error_handler_t \<Rightarrow> bool \<Rightarrow> nat \<Rightarrow> char \<Rightarrow> dump_state \<Rightarrow> json_exception + bool \<times> dump_state" where
  "dump_byte eh ensure_ascii i c st =
     (let (s', cp') = decode (utf8_state st) (codepoint st) (of_char c);
          st1 = st\<lparr>utf8_state := s', codepoint := cp'\<rparr>
      in if s' = UTF8_ACCEPT then bindr (dump_accept ensure_ascii c st1) (\<lambda>st2. Inr (False, st2))
         else if s' = UTF8_REJECT then dump_reject eh ensure_ascii i c st1
         else bindr (dump_incomplete ensure_ascii c st1) (\<lambda>st2. Inr (False, st2)))"

lemma buffer_put_keeps [simp]:
  assumes "buffer_put cs extra st = Inr st'"
  shows "undumped_chars st' = undumped_chars st"
  using assms by (auto simp: buffer_put_def split: if_splits)

lemma dump_byte_again:
  assumes "dump_byte eh ensure_ascii i c st = Inr (again, st')" and again
  shows "0 < undumped_chars st \<and> undumped_chars st' = 0"
  using assms
  by (auto simp: dump_byte_def dump_reject_def Let_def bindr_eq_Inr
      split: prod.splits if_splits error_handler_t.splits)

lemma dump_byte_undumped:
  assumes "dump_byte eh ensure_ascii i c st = Inr (again, st')"
  shows "undumped_chars st' \<le> undumped_chars st + 1"
  using assms
  by (auto simp: dump_byte_def dump_reject_def dump_accept_def dump_incomplete_def Let_def bindr_eq_Inr
      dest: buffer_put_keeps split: prod.splits if_splits error_handler_t.splits)

text \<open>
  The \<open>for\<close> loop over the bytes of the string; \<open>rest\<close> is what lies from index \<open>i\<close> on. A
  byte is read again at most once, right after the bytes of an incomplete code point.
\<close>

function dump_escaped_loop ::
    "error_handler_t \<Rightarrow> bool \<Rightarrow> string \<Rightarrow> nat \<Rightarrow> dump_state \<Rightarrow> json_exception + dump_state" where
  "dump_escaped_loop eh ensure_ascii rest i st =
     (case rest of
        [] \<Rightarrow> Inr st
      | c # cs \<Rightarrow>
          bindr (dump_byte eh ensure_ascii i c st) (\<lambda>(again, st').
            if again then dump_escaped_loop eh ensure_ascii rest i st'
            else dump_escaped_loop eh ensure_ascii cs (i + 1) st'))"
  by pat_completeness auto
termination
  by (relation "measure (\<lambda>(eh, ea, rest, i, st). 2 * length rest + (if undumped_chars st = 0 then 0 else 1))")
    (auto dest: dump_byte_again)

declare dump_escaped_loop.simps [simp del]

text \<open>What follows the loop; \<open>s\<close> is the whole string.\<close>

definition dump_finish ::
    "error_handler_t \<Rightarrow> bool \<Rightarrow> string \<Rightarrow> dump_state \<Rightarrow> json_exception + string" where
  "dump_finish eh ensure_ascii s st =
     (if utf8_state st = UTF8_ACCEPT then Inr (o_out st @ string_buffer st)
      else case eh of
        strict \<Rightarrow> Inl (type_error_create 316
           (''incomplete UTF-8 string; last byte: 0x'' @ format_2X (byte_of_char (last s))))
      | ignore \<Rightarrow> Inr (o_out st @ take (bytes_after_last_accept st) (string_buffer st))
      | replace \<Rightarrow> Inr (o_out st @ take (bytes_after_last_accept st) (string_buffer st)
                       @ replacement ensure_ascii))"

definition dump_escaped ::
    "error_handler_t \<Rightarrow> bool \<Rightarrow> string \<Rightarrow> string \<Rightarrow> json_exception + string" where
  "dump_escaped eh ensure_ascii s out =
     bindr (dump_escaped_loop eh ensure_ascii s 0
              \<lparr>utf8_state = UTF8_ACCEPT, codepoint = 0, string_buffer = [],
               bytes_after_last_accept = 0, undumped_chars = 0, o_out = out\<rparr>)
       (dump_finish eh ensure_ascii s)"

section \<open>Numbers\<close>

function count_digits_loop :: "u64 \<Rightarrow> nat \<Rightarrow> nat" where
  "count_digits_loop x n_digits =
     (if x < 10 then n_digits
      else if x < 100 then n_digits + 1
      else if x < 1000 then n_digits + 2
      else if x < 10000 then n_digits + 3
      else count_digits_loop (x div 10000) (n_digits + 4))"
  by pat_completeness auto
termination
  by (relation "measure (\<lambda>(x, n). unat x)") (auto simp: unat_div word_less_nat_alt)

declare count_digits_loop.simps [simp del]

definition count_digits :: "u64 \<Rightarrow> nat" where
  "count_digits x = count_digits_loop x 1"

text \<open>\<open>digits_to_99[i][0]\<close> and \<open>digits_to_99[i][1]\<close>.\<close>

definition digits_to_99 :: "(char \<times> char) list" where
  "digits_to_99 = [(a, b). a \<leftarrow> ''0123456789'', b \<leftarrow> ''0123456789'']"

definition number_buffer_size :: nat where "number_buffer_size = 64"

text \<open>
  The backward filling of \<open>number_buffer\<close>: \<open>p\<close> is the index \<open>buffer_ptr\<close> stands on.
\<close>

function fill_digits :: "u64 \<Rightarrow> nat \<Rightarrow> string \<Rightarrow> string" where
  "fill_digits abs_value p buffer =
     (if 100 \<le> abs_value then
        let d = digits_to_99 ! unat (abs_value mod 100)
        in fill_digits (abs_value div 100) (p - 2) (buffer[p - 1 := snd d, p - 2 := fst d])
      else if 10 \<le> abs_value then
        let d = digits_to_99 ! unat abs_value
        in buffer[p - 1 := snd d, p - 2 := fst d]
      else buffer[p - 1 := char_of (48 + unat abs_value)])"
  by pat_completeness auto
termination
  by (relation "measure (\<lambda>(x, p, b). unat x)") (auto simp: unat_div word_le_nat_alt)

declare fill_digits.simps [simp del]

text \<open>
  \<open>dump_integer\<close> at its two types. \<open>std::abs\<close> of the least \<open>int64_t\<close> overflows. The buffer
  has at most 21 characters in use, of which the remaining ones are left as they are.
\<close>

definition dump_integer_abs :: "bool \<Rightarrow> u64 \<Rightarrow> string" where
  "dump_integer_abs is_negative abs_value =
     (let n_chars = (if is_negative then 1 else 0) + count_digits abs_value;
          buffer = replicate number_buffer_size (CHR 0x00);
          buffer1 = (if is_negative then buffer[0 := CHR ''-''] else buffer)
      in take n_chars (fill_digits abs_value n_chars buffer1))"

definition dump_integer_unsigned :: "u64 \<Rightarrow> string" where
  "dump_integer_unsigned x = (if x = 0 then ''0'' else dump_integer_abs False x)"

definition dump_integer_signed :: "s64 \<Rightarrow> json_exception + string" where
  "dump_integer_signed x =
     (if x = 0 then Inr ''0''
      else if sint x < 0 then
        if sint x = - (2 ^ 63) then Inl (undefined_behaviour ''std::abs of INT64_MIN'')
        else Inr (dump_integer_abs True (of_int (\<bar>sint x\<bar>)))
      else Inr (dump_integer_abs False x))"

section \<open>Values\<close>

fun dump :: "(f64 \<Rightarrow> string) \<Rightarrow> error_handler_t \<Rightarrow> bool \<Rightarrow> json \<Rightarrow> string \<Rightarrow> json_exception + string"
  and dump_members ::
    "(f64 \<Rightarrow> string) \<Rightarrow> error_handler_t \<Rightarrow> bool \<Rightarrow> (string \<times> json) list \<Rightarrow> string
       \<Rightarrow> json_exception + string"
  and dump_elements ::
    "(f64 \<Rightarrow> string) \<Rightarrow> error_handler_t \<Rightarrow> bool \<Rightarrow> json list \<Rightarrow> string \<Rightarrow> json_exception + string" where
  "dump dump_float eh ea (Object m) out =
     (if m = [] then Inr (out @ ''{}'')
      else bindr (dump_members dump_float eh ea m (out @ ''{'')) (\<lambda>out. Inr (out @ ''}'')))"
| "dump dump_float eh ea (Array xs) out =
     (if xs = [] then Inr (out @ ''[]'')
      else bindr (dump_elements dump_float eh ea xs (out @ ''['')) (\<lambda>out. Inr (out @ '']'')))"
| "dump dump_float eh ea (String s) out =
     bindr (dump_escaped eh ea s (out @ [CHR 0x22])) (\<lambda>out. Inr (out @ [CHR 0x22]))"
| "dump dump_float eh ea (Boolean b) out = Inr (out @ (if b then ''true'' else ''false''))"
| "dump dump_float eh ea (Number_integer n) out =
     bindr (dump_integer_signed n) (\<lambda>t. Inr (out @ t))"
| "dump dump_float eh ea (Number_unsigned n) out = Inr (out @ dump_integer_unsigned n)"
| "dump dump_float eh ea (Number_float x) out = Inr (out @ dump_float x)"
| "dump dump_float eh ea Discarded out = Inr (out @ ''<discarded>'')"
| "dump dump_float eh ea Null out = Inr (out @ ''null'')"
| "dump_members dump_float eh ea [] out = Inr out"
| "dump_members dump_float eh ea ((k, v) # m) out =
     bindr (dump_escaped eh ea k (out @ [CHR 0x22])) (\<lambda>out1.
     bindr (dump dump_float eh ea v (out1 @ [CHR 0x22, CHR '':''])) (\<lambda>out2.
     if m = [] then Inr out2 else dump_members dump_float eh ea m (out2 @ '','')))"
| "dump_elements dump_float eh ea [] out = Inr out"
| "dump_elements dump_float eh ea (v # xs) out =
     bindr (dump dump_float eh ea v out) (\<lambda>out1.
     if xs = [] then Inr out1 else dump_elements dump_float eh ea xs (out1 @ '',''))"

text \<open>\<open>basic_json::dump()\<close> with its default arguments.\<close>

definition json_dump :: "(f64 \<Rightarrow> string) \<Rightarrow> json \<Rightarrow> json_exception + string" where
  "json_dump dump_float j = dump dump_float strict False j []"

section \<open>Memory safety of the string buffer\<close>

definition dump_inv :: "bool \<Rightarrow> dump_state \<Rightarrow> bool" where
  "dump_inv ensure_ascii st \<longleftrightarrow>
     utf8_state st < 9 \<and> utf8_state st \<noteq> 1 \<and> codep_ok (utf8_state st) (unat (codepoint st))
     \<and> bytes_after_last_accept st \<le> 499
     \<and> (if ensure_ascii \<or> utf8_state st = 0 then length (string_buffer st) \<le> 499
        else length (string_buffer st) + length (state_ranges (utf8_state st)) \<le> 503)"

lemma escape_codepoint_size:
  assumes "escape_codepoint ensure_ascii cp c = (cs, extra)"
  shows "length cs + extra \<le> 13"
    and "\<not> ensure_ascii \<Longrightarrow> length cs + extra \<le> 7"
    and "\<not> ensure_ascii \<Longrightarrow> 0x80 \<le> unat cp \<Longrightarrow> cs = [c] \<and> extra = 0"
  using assms
  by (auto simp: escape_codepoint_def format_04x_def word_le_nat_alt split: if_splits)

lemma buffer_flush_size: "length (string_buffer (buffer_flush st)) \<le> 499"
  by (auto simp: buffer_flush_def string_buffer_size_def)

lemma next_state_less: "next_state s t < 9"
  by (simp add: next_state_def)

lemma state_ranges_zero [simp]: "state_ranges 0 = []"
  by (simp add: state_ranges_def)

lemma state_ranges_pos: "2 \<le> s \<Longrightarrow> s < 9 \<Longrightarrow> state_ranges s \<noteq> []"
  using next_state_step [of 0 s] by force

lemma dump_accept_inv:
  assumes "utf8_state st = 0"
    and "length (string_buffer st) + (let (cs, extra) = escape_codepoint ensure_ascii (codepoint st) c in length cs + extra) \<le> 512"
  shows "\<exists>st'. dump_accept ensure_ascii c st = Inr st' \<and> dump_inv ensure_ascii st'
     \<and> o_out st' @ string_buffer st' = o_out st @ string_buffer st @ fst (escape_codepoint ensure_ascii (codepoint st) c)
     \<and> utf8_state st' = 0"
proof -
  obtain cs extra where e: "escape_codepoint ensure_ascii (codepoint st) c = (cs, extra)" by fastforce
  have "buffer_put cs extra st = Inr (st\<lparr>string_buffer := string_buffer st @ cs\<rparr>)"
    using assms(2) by (simp add: buffer_put_def e string_buffer_size_def)
  then show ?thesis
    using assms(1)
    by (auto simp: dump_accept_def e Let_def dump_inv_def buffer_flush_def codep_ok_def string_buffer_size_def)
qed

lemma dump_incomplete_inv:
  assumes "ensure_ascii \<or> length (string_buffer st) < 512"
  shows "dump_incomplete ensure_ascii c st =
     Inr ((if ensure_ascii then st else st\<lparr>string_buffer := string_buffer st @ [c]\<rparr>)
            \<lparr>undumped_chars := undumped_chars st + 1\<rparr>)"
proof (cases ensure_ascii)
  case True
  then show ?thesis by (simp add: dump_incomplete_def)
next
  case False
  with assms have "buffer_put [c] 0 st = Inr (st\<lparr>string_buffer := string_buffer st @ [c]\<rparr>)"
    by (simp add: buffer_put_def string_buffer_size_def)
  with False show ?thesis by (simp add: dump_incomplete_def)
qed

lemma of_char_nat_int: "int (of_char c) = (of_char c :: int)"
  by (simp add: of_nat_of_char)

text \<open>What one iteration of the loop does, by what the byte is to the automaton.\<close>

lemma decode_outcome:
  assumes "dump_inv ensure_ascii st" "decode (utf8_state st) (codepoint st) (of_char c) = (s', cp')"
  shows "s' < 9 \<and> (s' \<noteq> 1 \<longrightarrow> codep_ok s' (unat cp'))
     \<and> (if utf8_state st = 0 then
          (case utf8_ranges (of_char c) of Some rs \<Rightarrow> s' \<noteq> 1 \<and> state_ranges s' = rs | None \<Rightarrow> s' = 1)
          \<and> (s' = 0 \<longrightarrow> cp' = of_nat (of_char c))
        else
          (\<exists>lo hi rs. state_ranges (utf8_state st) = (lo, hi) # rs
            \<and> (if lo \<le> of_char c \<and> of_char c \<le> hi then s' \<noteq> 1 \<and> state_ranges s' = rs else s' = 1))
          \<and> (s' = 0 \<longrightarrow> 0x80 \<le> unat cp'))"
proof (cases "utf8_state st = 0")
  case True
  have b: "(of_char c :: nat) < 256" by simp
  note d = decode_start [OF b assms(2) [unfolded True]]
  show ?thesis
    using next_state_start [OF b] d True next_state_less [of 0 "byte_type (of_char c)"]
    by (auto simp: of_char_nat_int split: option.splits)
next
  case False
  have b: "(of_char c :: nat) < 256" by simp
  from assms(1) False have s: "2 \<le> utf8_state st" "utf8_state st < 9" "codep_ok (utf8_state st) (unat (codepoint st))"
    by (auto simp: dump_inv_def)
  note d = decode_step [OF b s assms(2)]
  show ?thesis
    using next_state_step [OF b s(1,2)] d False next_state_less [of "utf8_state st" "byte_type (of_char c)"]
    by (auto simp: of_char_nat_int split: if_splits)
qed

lemma state_ranges_length: "length (state_ranges s) \<le> 3"
  by (simp add: state_ranges_def)

lemma dump_reject_inv:
  assumes "bytes_after_last_accept st \<le> 499" "eh \<noteq> strict"
  shows "\<exists>again st'. dump_reject eh ensure_ascii i c st = Inr (again, st') \<and> dump_inv ensure_ascii st'"
proof -
  let ?st = "st\<lparr>string_buffer := take (bytes_after_last_accept st) (string_buffer st)\<rparr>"
  have "length (replacement ensure_ascii) \<le> 6" by (simp add: replacement_def)
  then have "buffer_put (replacement ensure_ascii) 0 ?st = Inr (?st\<lparr>string_buffer := string_buffer ?st @ replacement ensure_ascii\<rparr>)"
    using assms(1) by (simp add: buffer_put_def string_buffer_size_def)
  with assms show ?thesis
    by (cases eh) (auto simp: dump_reject_def Let_def dump_inv_def codep_ok_def UTF8_ACCEPT_def
        buffer_flush_size)
qed

lemma dump_byte_inv:
  assumes inv: "dump_inv ensure_ascii st"
  shows "(\<exists>again st'. dump_byte eh ensure_ascii i c st = Inr (again, st') \<and> dump_inv ensure_ascii st')
     \<or> (eh = strict \<and> (\<exists>w. dump_byte eh ensure_ascii i c st = Inl (type_error 316 w)))"
proof -
  obtain s' cp' where d: "decode (utf8_state st) (codepoint st) (of_char c) = (s', cp')" by fastforce
  note o = decode_outcome [OF inv d]
  let ?st = "st\<lparr>utf8_state := s', codepoint := cp'\<rparr>"
  obtain cs extra where e: "escape_codepoint ensure_ascii cp' c = (cs, extra)" by fastforce
  have last: "utf8_state st = 0 \<or> length (state_ranges (utf8_state st)) = Suc (length (state_ranges s'))" if "s' \<noteq> 1"
    using o that by (auto split: if_splits)
  consider "s' = 0" | "s' = 1" | "s' \<noteq> 0" "s' \<noteq> 1" by blast
  then show ?thesis
  proof cases
    case 1
    have "length (string_buffer st) + (length cs + extra) \<le> 512"
      using inv escape_codepoint_size [OF e] o last 1 by (auto simp: dump_inv_def split: if_splits)
    with dump_accept_inv [of ?st ensure_ascii c] 1 d e show ?thesis
      by (auto simp: dump_byte_def UTF8_ACCEPT_def)
  next
    case 2
    then have b: "dump_byte eh ensure_ascii i c st = dump_reject eh ensure_ascii i c ?st"
      using d by (simp add: dump_byte_def UTF8_ACCEPT_def UTF8_REJECT_def)
    have "bytes_after_last_accept ?st \<le> 499" using inv by (simp add: dump_inv_def)
    with b dump_reject_inv [of ?st eh ensure_ascii i c] show ?thesis
      by (cases "eh = strict") (simp_all add: dump_reject_def type_error_create_def)
  next
    case 3
    have "ensure_ascii \<or> length (string_buffer ?st) < 512"
      using inv by (auto simp: dump_inv_def split: if_splits)
    with dump_incomplete_inv [of ensure_ascii ?st c] 3 d inv o last state_ranges_length [of s']
    show ?thesis
      by (auto simp: dump_byte_def UTF8_ACCEPT_def UTF8_REJECT_def dump_inv_def split: if_splits)
  qed
qed

lemma dump_loop_inv:
  assumes "dump_inv ensure_ascii st"
  shows "(\<exists>st'. dump_escaped_loop eh ensure_ascii rest i st = Inr st' \<and> dump_inv ensure_ascii st')
     \<or> (eh = strict \<and> (\<exists>w. dump_escaped_loop eh ensure_ascii rest i st = Inl (type_error 316 w)))"
  using assms
proof (induction eh ensure_ascii rest i st rule: dump_escaped_loop.induct)
  case (1 eh ensure_ascii rest i st)
  show ?case
  proof (cases rest)
    case Nil
    with 1 show ?thesis by (simp add: dump_escaped_loop.simps)
  next
    case (Cons c cs)
    from dump_byte_inv [OF 1(3), of eh i c] show ?thesis
    proof
      assume "\<exists>again st'. dump_byte eh ensure_ascii i c st = Inr (again, st') \<and> dump_inv ensure_ascii st'"
      then obtain again st' where b: "dump_byte eh ensure_ascii i c st = Inr (again, st')" "dump_inv ensure_ascii st'"
        by blast
      show ?thesis
        using 1(1) [OF Cons b(1)] 1(2) [OF Cons b(1)] b dump_escaped_loop.simps [of eh ensure_ascii rest i st]
        by (cases again) (simp_all add: Cons)
    qed (use Cons dump_escaped_loop.simps [of eh ensure_ascii rest i st] in auto)
  qed
qed

lemma dump_finish_safe:
  "(\<exists>t. dump_finish eh ensure_ascii s st = Inr t)
     \<or> (eh = strict \<and> (\<exists>w. dump_finish eh ensure_ascii s st = Inl (type_error 316 w)))"
  by (cases eh) (simp_all add: dump_finish_def type_error_create_def)

lemma dump_escaped_safe:
  "(\<exists>t. dump_escaped eh ensure_ascii s out = Inr t)
     \<or> (eh = strict \<and> (\<exists>w. dump_escaped eh ensure_ascii s out = Inl (type_error 316 w)))"
proof -
  let ?st = "\<lparr>utf8_state = UTF8_ACCEPT, codepoint = 0, string_buffer = [],
     bytes_after_last_accept = 0, undumped_chars = 0, o_out = out\<rparr>"
  have "dump_inv ensure_ascii ?st" by (simp add: dump_inv_def UTF8_ACCEPT_def codep_ok_def)
  from dump_loop_inv [OF this, of eh s 0] show ?thesis
  proof (elim disjE exE conjE)
    fix st' assume "dump_escaped_loop eh ensure_ascii s 0 ?st = Inr st'"
    with dump_finish_safe [of eh ensure_ascii s st'] show ?thesis by (simp add: dump_escaped_def)
  qed (simp add: dump_escaped_def)
qed

section \<open>What the escaping writes\<close>

text \<open>
  The text \<open>dump_escaped\<close> writes for a byte when it is not asked for ASCII output: a short
  escape, an escape of a control character, or the byte itself.
\<close>

definition escape_byte :: "char \<Rightarrow> string" where
  "escape_byte c =
     (if of_char c < (0x80 :: nat) then fst (escape_codepoint False (of_nat (of_char c)) c) else [c])"

lemma take_range_byte: "(lo, hi) # rs = state_ranges s \<Longrightarrow> lo \<ge> 0x80"
  by (simp add: state_ranges_def split: if_splits)

lemma ranges_lead: "utf8_ranges (of_char c) = Some rs \<Longrightarrow> rs \<noteq> [] \<Longrightarrow> 0x80 \<le> (of_char c :: nat)"
  by (cases "(of_char c :: nat) < 0x80")
    (auto simp: utf8_ranges_def of_char_nat_int [symmetric] split: if_splits)

lemma ranges_ascii: "utf8_ranges (of_char c) = Some [] \<Longrightarrow> (of_char c :: nat) < 0x80"
  by (auto simp: utf8_ranges_def of_char_nat_int [symmetric] split: if_splits)

lemma escape_byte_high: "0x80 \<le> (of_char c :: nat) \<Longrightarrow> escape_byte c = [c]"
  by (simp add: escape_byte_def)

lemma dump_byte_strict:
  assumes inv: "dump_inv False st"
    and d: "decode (utf8_state st) (codepoint st) (of_char c) = (s', cp')" and "s' \<noteq> 1"
  shows "\<exists>st'. dump_byte strict False i c st = Inr (False, st') \<and> utf8_state st' = s'
     \<and> o_out st' @ string_buffer st' = o_out st @ string_buffer st @ escape_byte c"
proof (cases "s' = 0")
  case True
  let ?st = "st\<lparr>utf8_state := s', codepoint := cp'\<rparr>"
  note o = decode_outcome [OF inv d]
  obtain cs extra where e: "escape_codepoint False cp' c = (cs, extra)" by fastforce
  have esc: "cs = escape_byte c"
  proof (cases "utf8_state st = 0")
    case z: True
    with o True have "cp' = of_nat (of_char c)" "(of_char c :: nat) < 0x80"
      by (auto intro: ranges_ascii split: option.splits)
    with e show ?thesis by (simp add: escape_byte_def)
  next
    case nz: False
    with o True obtain lo hi where "state_ranges (utf8_state st) = [(lo, hi)]" "lo \<le> of_char c" "0x80 \<le> unat cp'"
      by (auto split: if_splits)
    moreover from this have "0x80 \<le> lo" using take_range_byte [of lo hi "[]" "utf8_state st"] by simp
    ultimately show ?thesis
      using escape_codepoint_size(3) [OF e] by (simp add: escape_byte_high of_char_nat_int [symmetric])
  qed
  have "length (string_buffer st) + (length cs + extra) \<le> 512"
    using inv escape_codepoint_size [OF e] o True by (auto simp: dump_inv_def split: if_splits)
  with dump_accept_inv [of ?st False c] True d e esc show ?thesis
    by (auto simp: dump_byte_def UTF8_ACCEPT_def)
next
  case False
  note o = decode_outcome [OF inv d]
  have "0x80 \<le> (of_char c :: nat)"
  proof (cases "utf8_state st = 0")
    case True
    with o False \<open>s' \<noteq> 1\<close> obtain rs where "utf8_ranges (of_char c) = Some rs" "state_ranges s' = rs"
      by (auto split: option.splits)
    moreover have "state_ranges s' \<noteq> []" using state_ranges_pos [of s'] False \<open>s' \<noteq> 1\<close> o by fastforce
    ultimately show ?thesis using ranges_lead by blast
  next
    case nz: False
    with o \<open>s' \<noteq> 1\<close> obtain lo hi rs where "state_ranges (utf8_state st) = (lo, hi) # rs" "lo \<le> of_char c"
      by (auto split: if_splits)
    with take_range_byte [of lo hi rs "utf8_state st"] show ?thesis by (simp add: of_char_nat_int [symmetric])
  qed
  moreover have "length (string_buffer st) < 512"
    using inv by (auto simp: dump_inv_def split: if_splits)
  ultimately show ?thesis
    using False \<open>s' \<noteq> 1\<close> d
    by (simp add: dump_byte_def UTF8_ACCEPT_def UTF8_REJECT_def dump_incomplete_inv escape_byte_high)
qed

lemma dump_loop_strict:
  assumes "dump_inv False st"
  shows "if utf8_valid_pending (state_ranges (utf8_state st)) rest
     then bindr (dump_escaped_loop strict False rest i st) (dump_finish strict False s)
            = Inr (o_out st @ string_buffer st @ concat (map escape_byte rest))
     else \<exists>w. bindr (dump_escaped_loop strict False rest i st) (dump_finish strict False s)
            = Inl (type_error 316 w)"
  using assms
proof (induction rest arbitrary: i st)
  case Nil
  then have "utf8_state st = 0 \<or> 2 \<le> utf8_state st \<and> utf8_state st < 9" by (auto simp: dump_inv_def)
  then have "state_ranges (utf8_state st) = [] \<longleftrightarrow> utf8_state st = 0"
    using state_ranges_pos [of "utf8_state st"] by auto
  then show ?case
    by (simp add: dump_escaped_loop.simps dump_finish_def UTF8_ACCEPT_def type_error_create_def)
next
  case (Cons c cs)
  obtain s' cp' where d: "decode (utf8_state st) (codepoint st) (of_char c) = (s', cp')" by fastforce
  note o = decode_outcome [OF Cons.prems d]
  let ?st = "st\<lparr>utf8_state := s', codepoint := cp'\<rparr>"
  have loop: "bindr (dump_escaped_loop strict False (c # cs) i st) (dump_finish strict False s) =
      bindr (dump_byte strict False i c st) (\<lambda>(again, st').
        bindr (if again then dump_escaped_loop strict False (c # cs) i st'
               else dump_escaped_loop strict False cs (i + 1) st') (dump_finish strict False s))"
    by (subst dump_escaped_loop.simps) (simp add: bindr_assoc case_prod_beta')
  have valid: "utf8_valid_pending (state_ranges (utf8_state st)) (c # cs) =
      (s' \<noteq> 1 \<and> utf8_valid_pending (state_ranges s') cs)"
    using o by (cases "utf8_state st = 0") (auto split: option.splits if_splits)
  show ?case
  proof (cases "s' = 1")
    case True
    then have "dump_byte strict False i c st = dump_reject strict False i c ?st"
      using d by (simp add: dump_byte_def UTF8_ACCEPT_def UTF8_REJECT_def)
    with True valid loop show ?thesis by (simp add: dump_reject_def type_error_create_def)
  next
    case False
    have "\<exists>st'. dump_byte strict False i c st = Inr (False, st') \<and> utf8_state st' = s'
        \<and> o_out st' @ string_buffer st' = o_out st @ string_buffer st @ escape_byte c"
      by (rule dump_byte_strict [OF Cons.prems d False])
    then obtain st' where b: "dump_byte strict False i c st = Inr (False, st')" "utf8_state st' = s'"
      "o_out st' @ string_buffer st' = o_out st @ string_buffer st @ escape_byte c" by blast
    have "dump_inv False st'" using dump_byte_inv [OF Cons.prems, of strict i c] b(1) by auto
    from Cons.IH [OF this, of "i + 1"] b valid loop False show ?thesis
      by (cases "utf8_valid_pending (state_ranges s') cs") (simp_all flip: append_assoc)
  qed
qed


lemma dump_escaped_strict:
  "if utf8_valid s then dump_escaped strict False s out = Inr (out @ concat (map escape_byte s))
   else \<exists>w. dump_escaped strict False s out = Inl (type_error 316 w)"
  using dump_loop_strict [of "\<lparr>utf8_state = UTF8_ACCEPT, codepoint = 0, string_buffer = [],
     bytes_after_last_accept = 0, undumped_chars = 0, o_out = out\<rparr>" s 0 s]
  by (cases "utf8_valid s") (simp_all add: dump_escaped_def dump_inv_def UTF8_ACCEPT_def codep_ok_def)

section \<open>Decimal digits\<close>

lemma to_string_ge: "10 \<le> n \<Longrightarrow> to_string n = to_string (n div 10) @ [char_of (48 + n mod 10)]"
  by (subst to_string.simps) simp

lemma to_string_less: "n < 10 \<Longrightarrow> to_string n = [char_of (48 + n)]"
  by (subst to_string.simps) simp

lemma to_string_ge_100:
  assumes "100 \<le> n"
  shows "to_string n = to_string (n div 100) @ [char_of (48 + n mod 100 div 10), char_of (48 + n mod 10)]"
proof -
  have "n div 10 mod 10 = n mod 100 div 10"
    using mod_mult2_eq [of n 10 10] by simp
  with assms show ?thesis
    by (simp add: to_string_ge [of n] to_string_ge [of "n div 10"] div_mult2_eq [symmetric])
qed

lemma to_string_10000: "10000 \<le> n \<Longrightarrow> length (to_string n) = length (to_string (n div 10000)) + 4"
  by (simp add: to_string_ge_100 [of n] to_string_ge_100 [of "n div 100"] div_mult2_eq [symmetric])

lemma count_digits_loop_eq:
  "0 < k \<Longrightarrow> count_digits_loop x k = k - 1 + length (to_string (unat x))"
proof (induction x k rule: count_digits_loop.induct)
  case (1 x k)
  have lt: "x < 10 \<longleftrightarrow> unat x < 10" "x < 100 \<longleftrightarrow> unat x < 100" "x < 1000 \<longleftrightarrow> unat x < 1000"
    "x < 10000 \<longleftrightarrow> unat x < 10000"
    by (simp_all add: word_less_nat_alt)
  consider "unat x < 10" | "10 \<le> unat x" "unat x < 100" | "100 \<le> unat x" "unat x < 1000"
    | "1000 \<le> unat x" "unat x < 10000" | "10000 \<le> unat x" by linarith
  then show ?case
  proof cases
    case 5
    then show ?thesis
      using 1 by (subst count_digits_loop.simps) (simp add: lt unat_div to_string_10000)
  qed (subst count_digits_loop.simps, simp add: lt 1 to_string_less to_string_ge)+
qed

lemma count_digits_eq: "count_digits x = length (to_string (unat x))"
  by (simp add: count_digits_def count_digits_loop_eq)

lemma digits_to_99_eq: "digits_to_99 = map (\<lambda>i. (char_of (48 + i div 10), char_of (48 + i mod 10))) [0..<100]"
  by (simp add: digits_to_99_def upt_rec char_of_def bit_Suc_0_iff)

lemma digits_to_99_nth: "i < 100 \<Longrightarrow> digits_to_99 ! i = (char_of (48 + i div 10), char_of (48 + i mod 10))"
  by (simp add: digits_to_99_eq)

lemma two_digits:
  assumes "2 \<le> p" "p \<le> length buf"
  shows "drop (p - 2) (buf[p - 1 := y, p - 2 := x]) = x # y # drop p buf"
    and "m \<le> p - 2 \<Longrightarrow> take m (buf[p - 1 := y, p - 2 := x]) = take m buf"
proof -
  define q where "q = p - 2"
  have p: "p = Suc (Suc q)" using assms(1) by (simp add: q_def)
  show "drop (p - 2) (buf[p - 1 := y, p - 2 := x]) = x # y # drop p buf"
    using assms by (intro nth_equalityI) (auto simp: p nth_list_update nth_Cons' Suc_diff_Suc)
  show "m \<le> p - 2 \<Longrightarrow> take m (buf[p - 1 := y, p - 2 := x]) = take m buf"
    by (simp add: p)
qed

lemma fill_digits_eq:
  assumes "length (to_string (unat x)) \<le> p" "p \<le> length buf"
  shows "fill_digits x p buf = take (p - length (to_string (unat x))) buf @ to_string (unat x) @ drop p buf"
  using assms
proof (induction x p buf rule: fill_digits.induct)
  case (1 x p buf)
  have le: "100 \<le> x \<longleftrightarrow> 100 \<le> unat x" "10 \<le> x \<longleftrightarrow> 10 \<le> unat x" by (simp_all add: word_le_nat_alt)
  consider "unat x < 10" | "10 \<le> unat x" "unat x < 100" | "100 \<le> unat x" by linarith
  then show ?case
  proof cases
    case 1
    then show ?thesis
      using "1.prems" by (subst fill_digits.simps) (simp add: le to_string_less list_update_append1 upd_conv_take_nth_drop)
  next
    case 2
    then have ts: "to_string (unat x) = [char_of (48 + unat x div 10), char_of (48 + unat x mod 10)]"
      by (simp add: to_string_ge to_string_less)
    then have "2 \<le> p" using "1.prems" by simp
    then have "buf[p - 1 := b, p - 2 := a] = take (p - 2) buf @ a # b # drop p buf" for a b
      using two_digits [where p = p and buf = buf and y = b and x = a] "1.prems" append_take_drop_id [of "p - 2" "buf[p - 1 := b, p - 2 := a]"]
      by simp
    then show ?thesis
      using 2 by (subst fill_digits.simps) (simp add: le ts digits_to_99_nth numeral_2_eq_2 [symmetric])
  next
    case 3
    let ?d = "digits_to_99 ! unat (x mod 100)"
    have d: "?d = (char_of (48 + unat x mod 100 div 10), char_of (48 + unat x mod 10))"
      by (simp add: digits_to_99_nth unat_mod mod_mod_cancel)
    note ts = to_string_ge_100 [OF 3]
    then have p: "2 \<le> p" "length (to_string (unat (x div 100))) \<le> p - 2"
      using "1.prems" by (simp_all add: unat_div)
    have "fill_digits (x div 100) (p - 2) (buf[p - 1 := snd ?d, p - 2 := fst ?d]) =
        take (p - 2 - length (to_string (unat (x div 100)))) (buf[p - 1 := snd ?d, p - 2 := fst ?d])
        @ to_string (unat (x div 100)) @ drop (p - 2) (buf[p - 1 := snd ?d, p - 2 := fst ?d])"
      using "1.IH" [OF _ refl] 3 p "1.prems" by (simp add: le)
    then show ?thesis
      using 3 p "1.prems" two_digits [where p = p and buf = buf and y = "snd ?d" and x = "fst ?d"]
      by (subst fill_digits.simps) (simp add: le ts d unat_div Let_def)
  qed
qed

lemma to_string_length: "n < 10 ^ Suc k \<Longrightarrow> length (to_string n) \<le> Suc k"
proof (induction k arbitrary: n)
  case (Suc k)
  then show ?case
    by (cases "n < 10") (simp_all add: to_string_less to_string_ge less_mult_imp_div_less)
qed (simp add: to_string_less)

lemma to_string_u64: "length (to_string (unat (x :: u64))) \<le> 20"
  using to_string_length [of "unat x" 19] unsigned_less [of x, where 'a = nat] by simp

lemma to_string_nonempty [simp]: "to_string n \<noteq> []"
  by (cases "n < 10") (simp_all add: to_string_less to_string_ge)

lemma dump_integer_abs_eq:
  "dump_integer_abs neg x = (if neg then ''-'' else []) @ to_string (unat x)"
proof -
  let ?n = "(if neg then 1 else 0) + length (to_string (unat x))"
  let ?b = "replicate number_buffer_size (CHR 0x00)"
  let ?b1 = "if neg then ?b[0 := CHR ''-''] else ?b"
  have "?n \<le> length ?b1" using to_string_u64 [of x] by (simp add: number_buffer_size_def)
  then have "take ?n (fill_digits x ?n ?b1) = take (?n - length (to_string (unat x))) ?b1 @ to_string (unat x)"
    by (simp add: fill_digits_eq)
  moreover have "take (?n - length (to_string (unat x))) ?b1 = (if neg then ''-'' else [])"
    using replicate_Suc [of 63 "CHR 0x00"] by (simp add: number_buffer_size_def)
  ultimately show ?thesis by (simp add: dump_integer_abs_def count_digits_eq Let_def)
qed

lemma to_string_zero: "to_string 0 = ''0''"
  by code_simp

lemma dump_integer_unsigned_eq: "dump_integer_unsigned x = to_string (unat x)"
  by (auto simp: dump_integer_unsigned_def dump_integer_abs_eq to_string_zero)

lemma dump_integer_signed_eq:
  "dump_integer_signed x =
     (if sint x = - (2 ^ 63) then Inl (undefined_behaviour ''std::abs of INT64_MIN'')
      else Inr ((if sint x < 0 then ''-'' else []) @ to_string (nat \<bar>sint x\<bar>)))"
proof -
  have range: "- (2 ^ 63) \<le> sint x" "sint x < 2 ^ 63"
    using sint_greater_eq [of x] sint_less [of x] by simp_all
  have neg: "unat (of_int k :: u64) = nat k" if "0 \<le> k" "k < 2 ^ 64" for k
    using that by (simp add: unsigned_of_int take_bit_int_eq_self)
  have pos: "unat x = nat (sint x)" if "0 \<le> sint x"
    using neg [OF that] range by simp
  have minus: "unat (- x) = nat (- sint x)" if "sint x < 0"
    using neg [of "- sint x"] that range by simp
  show ?thesis
    using range by (auto simp: dump_integer_signed_def dump_integer_abs_eq minus pos to_string_zero)
qed

section \<open>The text of a value\<close>

text \<open>
  A specification of the compact text of a value, and the values that have one: strings and
  keys are well-formed UTF-8 and no integer is the least \<open>int64_t\<close>.
\<close>

definition quote_text :: "string \<Rightarrow> string" where
  "quote_text s = CHR 0x22 # concat (map escape_byte s) @ [CHR 0x22]"

definition int_text :: "int \<Rightarrow> string" where
  "int_text n = (if n < 0 then ''-'' else []) @ to_string (nat \<bar>n\<bar>)"

fun json_text :: "(f64 \<Rightarrow> string) \<Rightarrow> json \<Rightarrow> string"
  and members_text :: "(f64 \<Rightarrow> string) \<Rightarrow> (string \<times> json) list \<Rightarrow> string"
  and elements_text :: "(f64 \<Rightarrow> string) \<Rightarrow> json list \<Rightarrow> string" where
  "json_text df (Object m) = ''{'' @ members_text df m @ ''}''"
| "json_text df (Array xs) = ''['' @ elements_text df xs @ '']''"
| "json_text df (String s) = quote_text s"
| "json_text df (Boolean b) = (if b then ''true'' else ''false'')"
| "json_text df (Number_integer n) = int_text (sint n)"
| "json_text df (Number_unsigned n) = to_string (unat n)"
| "json_text df (Number_float x) = df x"
| "json_text df Discarded = ''<discarded>''"
| "json_text df Null = ''null''"
| "members_text df [] = []"
| "members_text df ((k, v) # m) =
     quote_text k @ '':'' @ json_text df v @ (if m = [] then [] else '','' @ members_text df m)"
| "elements_text df [] = []"
| "elements_text df (v # xs) = json_text df v @ (if xs = [] then [] else '','' @ elements_text df xs)"

fun dumpable :: "json \<Rightarrow> bool"
  and dumpable_members :: "(string \<times> json) list \<Rightarrow> bool"
  and dumpable_elements :: "json list \<Rightarrow> bool" where
  "dumpable (Object m) = dumpable_members m"
| "dumpable (Array xs) = dumpable_elements xs"
| "dumpable (String s) = utf8_valid s"
| "dumpable (Number_integer n) = (sint n \<noteq> - (2 ^ 63))"
| "dumpable _ = True"
| "dumpable_members [] = True"
| "dumpable_members ((k, v) # m) = (utf8_valid k \<and> dumpable v \<and> dumpable_members m)"
| "dumpable_elements [] = True"
| "dumpable_elements (v # xs) = (dumpable v \<and> dumpable_elements xs)"

lemma dump_escaped_ok: "utf8_valid s \<Longrightarrow> dump_escaped strict False s out = Inr (out @ concat (map escape_byte s))"
  using dump_escaped_strict [of s out] by simp

lemma dump_ok:
  "dumpable j \<Longrightarrow> dump df strict False j out = Inr (out @ json_text df j)"
  "dumpable_members m \<Longrightarrow> dump_members df strict False m out = Inr (out @ members_text df m)"
  "dumpable_elements xs \<Longrightarrow> dump_elements df strict False xs out = Inr (out @ elements_text df xs)"
  by (induction df j and df m and df xs arbitrary: out and out and out
      rule: json_text_members_text_elements_text.induct)
    (auto simp: dump_escaped_ok quote_text_def int_text_def dump_integer_signed_eq dump_integer_unsigned_eq)

lemma dump_fails:
  "\<not> dumpable j \<Longrightarrow> \<exists>e. dump df strict False j out = Inl e"
  "\<not> dumpable_members m \<Longrightarrow> \<exists>e. dump_members df strict False m out = Inl e"
  "\<not> dumpable_elements xs \<Longrightarrow> \<exists>e. dump_elements df strict False xs out = Inl e"
proof (induction df j and df m and df xs arbitrary: out and out and out
    rule: json_text_members_text_elements_text.induct)
  case (3 df s)
  then show ?case using dump_escaped_strict [of s "out @ [CHR 0x22]"] by auto
next
  case (11 df k v m)
  show ?case
  proof (cases "utf8_valid k")
    case True
    show ?thesis
    proof (cases "dumpable v")
      case True
      with 11 \<open>utf8_valid k\<close> show ?thesis by (auto simp: dump_escaped_ok dump_ok bindr_eq_Inl)
    next
      case False
      from 11(1) [OF False, of "(out @ [CHR 0x22]) @ concat (map escape_byte k) @ [CHR 0x22, CHR '':'']"]
      show ?thesis using \<open>utf8_valid k\<close> by (auto simp: dump_escaped_ok)
    qed
  next
    case False
    then show ?thesis using dump_escaped_strict [of k "out @ [CHR 0x22]"] by auto
  qed
next
  case (13 df v xs)
  then show ?case
  proof (cases "dumpable v")
    case False
    from 13(1) [OF this, of out] show ?thesis by auto
  qed (auto simp: dump_ok bindr_eq_Inl)
qed (auto simp: dump_integer_signed_eq bindr_eq_Inl)

section \<open>Properties\<close>


text \<open>
  C14: no write of \<open>dump_escaped\<close> leaves the 512 bytes of \<open>string_buffer\<close>, whatever the string,
  the error handler and the ASCII option: the call returns, or it throws \<open>type_error 316\<close>
  under the handler \<open>strict\<close>.
\<close>

theorem dump_escaped_in_bounds:
  "(\<exists>t. dump_escaped eh ensure_ascii s out = Inr t)
   \<or> (eh = strict \<and> (\<exists>w. dump_escaped eh ensure_ascii s out = Inl (type_error 316 w)))"
  by (rule dump_escaped_safe)

text \<open>
  C17: the two-digits-at-a-time conversion through \<open>number_buffer\<close> prints the decimal digits of
  the number, for every unsigned value and for every signed value but the least one, on which
  \<open>std::abs\<close> overflows.
\<close>

theorem dump_integer_decimal:
  "dump_integer_unsigned n = to_string (unat n)
   \<and> dump_integer_signed k =
       (if sint k = - (2 ^ 63) then Inl (undefined_behaviour ''std::abs of INT64_MIN'')
        else Inr (int_text (sint k)))"
  by (simp add: dump_integer_unsigned_eq dump_integer_signed_eq int_text_def)

text \<open>
  C16: \<open>dump\<close> of a JSON value returns its compact text exactly when the value is printable,
  and otherwise does not return.
\<close>

theorem json_dump_result:
  "if dumpable j then json_dump dump_float j = Inr (json_text dump_float j)
   else \<exists>e. json_dump dump_float j = Inl e"
  using dump_ok(1) [of j dump_float "[]"] dump_fails(1) [of j dump_float "[]"] by (simp add: json_dump_def)

end
