(* ===== verification/Json_Lexer.thy ===== *)
theory Json_Lexer
  imports Json_Value Utf8
begin

text \<open>
  The lexer of \<^verbatim>\<open>src/externals/json/nlohmann/json.hpp\<close> (class \<open>lexer\<close>) reading from
  an \<open>input_buffer_adapter\<close>: character input with one character of push-back, strings with
  their escapes and UTF-8 checks, the number automaton, literals and the token scanner. A
  character is an \<open>int\<close>, -1 standing for \<open>eof\<close>, as in the code. The process runs in the C
  locale, in which \<open>decimal_point_char\<close> is the full stop.
\<close>

section \<open>Tokens and state\<close>

datatype token_type =
    tok_uninitialized | tok_literal_true | tok_literal_false | tok_literal_null | tok_value_string
  | tok_value_unsigned | tok_value_integer | tok_value_float | tok_begin_array | tok_begin_object
  | tok_end_array | tok_end_object | tok_name_separator | tok_value_separator | tok_parse_error
  | tok_end_of_input | tok_literal_or_value

definition quoted :: "string \<Rightarrow> string" where
  "quoted s = CHR 0x27 # s @ [CHR 0x27]"

definition token_type_name :: "token_type \<Rightarrow> string" where
  "token_type_name t =
     (case t of
        tok_uninitialized \<Rightarrow> ''<uninitialized>''
      | tok_literal_true \<Rightarrow> ''true literal''
      | tok_literal_false \<Rightarrow> ''false literal''
      | tok_literal_null \<Rightarrow> ''null literal''
      | tok_value_string \<Rightarrow> ''string literal''
      | tok_value_unsigned \<Rightarrow> ''number literal''
      | tok_value_integer \<Rightarrow> ''number literal''
      | tok_value_float \<Rightarrow> ''number literal''
      | tok_begin_array \<Rightarrow> quoted ''[''
      | tok_begin_object \<Rightarrow> quoted ''{''
      | tok_end_array \<Rightarrow> quoted '']''
      | tok_end_object \<Rightarrow> quoted ''}''
      | tok_name_separator \<Rightarrow> quoted '':''
      | tok_value_separator \<Rightarrow> quoted '',''
      | tok_parse_error \<Rightarrow> ''<parse error>''
      | tok_end_of_input \<Rightarrow> ''end of input''
      | tok_literal_or_value \<Rightarrow> quoted ''['' @ '', '' @ quoted ''{'' @ '', or a literal'')"

record position_t =
  chars_read_total :: nat
  chars_read_current_line :: nat
  lines_read :: nat

text \<open>\<open>ia\<close> holds what the input adapter has not delivered yet.\<close>

record lexer =
  ia :: string
  current :: int
  next_unget :: bool
  position :: position_t
  token_string :: string
  token_buffer :: string
  error_message :: string
  value_integer :: s64
  value_unsigned :: u64
  value_float :: f64

abbreviation eof :: int where "eof \<equiv> -1"

definition lexer_init :: "string \<Rightarrow> lexer" where
  "lexer_init input =
     \<lparr>ia = input, current = eof, next_unget = False,
      position = \<lparr>chars_read_total = 0, chars_read_current_line = 0, lines_read = 0\<rparr>,
      token_string = [], token_buffer = [], error_message = [],
      value_integer = 0, value_unsigned = 0, value_float = Finite False 0 0\<rparr>"

section \<open>Input management\<close>

definition to_char_type :: "int \<Rightarrow> char" where
  "to_char_type c = char_of c"

definition reset :: "lexer \<Rightarrow> lexer" where
  "reset lx = lx\<lparr>token_buffer := [], token_string := [to_char_type (current lx)]\<rparr>"

definition get_character :: "lexer \<Rightarrow> lexer" where
  "get_character lx =
     (case ia lx of
        c # cs \<Rightarrow> lx\<lparr>ia := cs, current := of_char c\<rparr>
      | [] \<Rightarrow> lx\<lparr>current := eof\<rparr>)"

definition get :: "lexer \<Rightarrow> lexer" where
  "get lx =
     (let pos = position lx;
          lx1 = lx\<lparr>position := pos\<lparr>chars_read_total := chars_read_total pos + 1,
                      chars_read_current_line := chars_read_current_line pos + 1\<rparr>\<rparr>;
          lx2 = (if next_unget lx1 then lx1\<lparr>next_unget := False\<rparr> else get_character lx1);
          lx3 = (if current lx2 \<noteq> eof
                 then lx2\<lparr>token_string := token_string lx2 @ [to_char_type (current lx2)]\<rparr>
                 else lx2)
      in if current lx3 = 0x0A
         then lx3\<lparr>position := (position lx3)\<lparr>lines_read := lines_read (position lx3) + 1,
                     chars_read_current_line := 0\<rparr>\<rparr>
         else lx3)"

definition unget :: "lexer \<Rightarrow> lexer" where
  "unget lx =
     (let pos = (position lx)\<lparr>chars_read_total := chars_read_total (position lx) - 1\<rparr>;
          pos1 = (if chars_read_current_line pos = 0
                  then (if 0 < lines_read pos then pos\<lparr>lines_read := lines_read pos - 1\<rparr> else pos)
                  else pos\<lparr>chars_read_current_line := chars_read_current_line pos - 1\<rparr>)
      in lx\<lparr>next_unget := True, position := pos1,
            token_string := (if current lx \<noteq> eof then butlast (token_string lx) else token_string lx)\<rparr>)"

definition add :: "int \<Rightarrow> lexer \<Rightarrow> lexer" where
  "add c lx = lx\<lparr>token_buffer := token_buffer lx @ [to_char_type c]\<rparr>"

definition get_token_string :: "lexer \<Rightarrow> string" where
  "get_token_string lx =
     concat (map (\<lambda>c. if (of_char c :: nat) \<le> 0x1F
                      then ''<U+00'' @ (if (of_char c :: nat) < 16 then ''0'' else ''1'')
                             @ [''0123456789ABCDEF'' ! (of_char c mod 16)] @ ''>''
                      else [c]) (token_string lx))"

definition lex_error :: "string \<Rightarrow> lexer \<Rightarrow> lexer" where
  "lex_error msg lx = lx\<lparr>error_message := msg\<rparr>"

text \<open>The number of characters a lexer can still deliver.\<close>

definition pending :: "lexer \<Rightarrow> nat" where
  "pending lx = length (ia lx) + (if next_unget lx \<and> current lx \<noteq> eof then 1 else 0)"

lemma get_pending: "current (get lx) \<noteq> eof \<Longrightarrow> pending (get lx) < pending lx"
  by (auto simp: get_def get_character_def pending_def Let_def split: list.splits if_splits)

lemma get_pending_le: "pending (get lx) \<le> pending lx"
  by (auto simp: get_def get_character_def pending_def Let_def split: list.splits)

lemma pending_simps [simp]:
  "pending (add c lx) = pending lx" "pending (lex_error m lx) = pending lx"
  "pending (reset lx) = pending lx"
  "current (add c lx) = current lx" "current (reset lx) = current lx"
  by (simp_all add: pending_def add_def lex_error_def reset_def)

section \<open>Strings\<close>

text \<open>\<open>get_codepoint\<close>: four hexadecimal digits, or -1.\<close>

definition hex_value :: "int \<Rightarrow> int option" where
  "hex_value c =
     (if 0x30 \<le> c \<and> c \<le> 0x39 then Some (c - 0x30)
      else if 0x41 \<le> c \<and> c \<le> 0x46 then Some (c - 0x37)
      else if 0x61 \<le> c \<and> c \<le> 0x66 then Some (c - 0x57)
      else None)"

fun get_codepoint_loop :: "nat list \<Rightarrow> int \<Rightarrow> lexer \<Rightarrow> int \<times> lexer" where
  "get_codepoint_loop [] codepoint lx = (codepoint, lx)"
| "get_codepoint_loop (factor # factors) codepoint lx =
     (let lx1 = get lx
      in case hex_value (current lx1) of
           Some v \<Rightarrow> get_codepoint_loop factors (codepoint + push_bit factor v) lx1
         | None \<Rightarrow> (-1, lx1))"

definition get_codepoint :: "lexer \<Rightarrow> int \<times> lexer" where
  "get_codepoint lx = get_codepoint_loop [12, 8, 4, 0] 0 lx"

text \<open>\<open>next_byte_in_range\<close>, the ranges given as pairs.\<close>

fun bytes_in_range :: "(int \<times> int) list \<Rightarrow> lexer \<Rightarrow> bool \<times> lexer" where
  "bytes_in_range [] lx = (True, lx)"
| "bytes_in_range ((lo, hi) # ranges) lx =
     (let lx1 = get lx
      in if lo \<le> current lx1 \<and> current lx1 \<le> hi
         then bytes_in_range ranges (add (current lx1) lx1)
         else (False, lex_error ''invalid string: ill-formed UTF-8 byte'' lx1))"

definition next_byte_in_range :: "(int \<times> int) list \<Rightarrow> lexer \<Rightarrow> bool \<times> lexer" where
  "next_byte_in_range ranges lx = bytes_in_range ranges (add (current lx) lx)"

text \<open>
  A piece of the body of the loop in \<open>scan_string\<close> ends with a \<open>return\<close> of a token or goes
  on to the next character.
\<close>

datatype scan_result = Return token_type lexer | Next lexer

definition string_error :: "string \<Rightarrow> lexer \<Rightarrow> scan_result" where
  "string_error msg lx = Return tok_parse_error (lex_error (''invalid string: '' @ msg) lx)"

definition u_escape :: string where "u_escape = [CHR 0x5C, CHR ''u'']"

text \<open>The translation of a code point into UTF-8 bytes.\<close>

definition add_codepoint :: "int \<Rightarrow> lexer \<Rightarrow> lexer" where
  "add_codepoint cp lx =
     (if cp < 0x80 then add cp lx
      else if cp \<le> 0x7FF then
        add (0x80 OR (cp AND 0x3F)) (add (0xC0 OR drop_bit 6 cp) lx)
      else if cp \<le> 0xFFFF then
        add (0x80 OR (cp AND 0x3F)) (add (0x80 OR (drop_bit 6 cp AND 0x3F))
          (add (0xE0 OR drop_bit 12 cp) lx))
      else
        add (0x80 OR (cp AND 0x3F)) (add (0x80 OR (drop_bit 6 cp AND 0x3F))
          (add (0x80 OR (drop_bit 12 cp AND 0x3F)) (add (0xF0 OR drop_bit 18 cp) lx))))"

text \<open>After a high surrogate \<open>codepoint1\<close>: the second half of the pair.\<close>

definition scan_surrogate :: "int \<Rightarrow> lexer \<Rightarrow> scan_result" where
  "scan_surrogate codepoint1 lx =
     (let msg = ''surrogate U+DC00..U+DFFF must be followed by U+DC00..U+DFFF'';
          lx1 = get lx
      in if current lx1 \<noteq> 0x5C then string_error msg lx1
         else
           let lx2 = get lx1
           in if current lx2 \<noteq> 0x75 then string_error msg lx2
              else
                let (codepoint2, lx3) = get_codepoint lx2
                in if codepoint2 = -1
                   then string_error (quoted u_escape @ '' must be followed by 4 hex digits'') lx3
                   else if 0xDC00 \<le> codepoint2 \<and> codepoint2 \<le> 0xDFFF
                   then Next (add_codepoint (push_bit 10 codepoint1 + codepoint2 - 0x35FDC00) lx3)
                   else string_error msg lx3)"

definition scan_unicode_escape :: "lexer \<Rightarrow> scan_result" where
  "scan_unicode_escape lx =
     (let (codepoint1, lx1) = get_codepoint lx
      in if codepoint1 = -1
         then string_error (quoted u_escape @ '' must be followed by 4 hex digits'') lx1
         else if 0xD800 \<le> codepoint1 \<and> codepoint1 \<le> 0xDBFF then scan_surrogate codepoint1 lx1
         else if 0xDC00 \<le> codepoint1 \<and> codepoint1 \<le> 0xDFFF
         then string_error ''surrogate U+DC00..U+DFFF must follow U+D800..U+DBFF'' lx1
         else Next (add_codepoint codepoint1 lx1))"

definition scan_escape :: "lexer \<Rightarrow> scan_result" where
  "scan_escape lx =
     (let lx1 = get lx; c = current lx1
      in if c = 0x22 then Next (add 0x22 lx1)
         else if c = 0x5C then Next (add 0x5C lx1)
         else if c = 0x2F then Next (add 0x2F lx1)
         else if c = 0x62 then Next (add 0x08 lx1)
         else if c = 0x66 then Next (add 0x0C lx1)
         else if c = 0x6E then Next (add 0x0A lx1)
         else if c = 0x72 then Next (add 0x0D lx1)
         else if c = 0x74 then Next (add 0x09 lx1)
         else if c = 0x75 then scan_unicode_escape lx1
         else string_error ''forbidden character after backslash'' lx1)"

definition control_names :: "string list" where
  "control_names =
     [''NUL'', ''SOH'', ''STX'', ''ETX'', ''EOT'', ''ENQ'', ''ACK'', ''BEL'', ''BS'', ''HT'', ''LF'',
      ''VT'', ''FF'', ''CR'', ''SO'', ''SI'', ''DLE'', ''DC1'', ''DC2'', ''DC3'', ''DC4'', ''NAK'',
      ''SYN'', ''ETB'', ''CAN'', ''EM'', ''SUB'', ''ESC'', ''FS'', ''GS'', ''RS'', ''US'']"

text \<open>The messages for the control characters 0x00 to 0x1F.\<close>

definition control_message :: "int \<Rightarrow> string" where
  "control_message c =
     (let n = nat c;
          hex = ''00'' @ (if n < 16 then ''0'' else ''1'') @ [''0123456789ABCDEF'' ! (n mod 16)]
      in ''control character U+'' @ hex @ '' ('' @ control_names ! n @ '') must be escaped to ''
         @ u_escape @ hex
         @ (if c = 0x08 then '' or '' @ [CHR 0x5C, CHR ''b'']
            else if c = 0x09 then '' or '' @ [CHR 0x5C, CHR ''t'']
            else if c = 0x0A then '' or '' @ [CHR 0x5C, CHR ''n'']
            else if c = 0x0C then '' or '' @ [CHR 0x5C, CHR ''f'']
            else if c = 0x0D then '' or '' @ [CHR 0x5C, CHR ''r'']
            else []))"

text \<open>The cases for the first byte of a multi-byte sequence.\<close>

definition scan_multibyte :: "lexer \<Rightarrow> scan_result" where
  "scan_multibyte lx =
     (let c = current lx;
          check = (\<lambda>ranges. case next_byte_in_range ranges lx of
                     (True, lx1) \<Rightarrow> Next lx1 | (False, lx1) \<Rightarrow> Return tok_parse_error lx1)
      in if 0xC2 \<le> c \<and> c \<le> 0xDF then check [(0x80, 0xBF)]
         else if c = 0xE0 then check [(0xA0, 0xBF), (0x80, 0xBF)]
         else if 0xE1 \<le> c \<and> c \<le> 0xEC \<or> c = 0xEE \<or> c = 0xEF then check [(0x80, 0xBF), (0x80, 0xBF)]
         else if c = 0xED then check [(0x80, 0x9F), (0x80, 0xBF)]
         else if c = 0xF0 then check [(0x90, 0xBF), (0x80, 0xBF), (0x80, 0xBF)]
         else if 0xF1 \<le> c \<and> c \<le> 0xF3 then check [(0x80, 0xBF), (0x80, 0xBF), (0x80, 0xBF)]
         else if c = 0xF4 then check [(0x80, 0x8F), (0x80, 0xBF), (0x80, 0xBF)]
         else string_error ''ill-formed UTF-8 byte'' lx)"

text \<open>One iteration of the loop, after \<open>get\<close>.\<close>

definition scan_string_char :: "lexer \<Rightarrow> scan_result" where
  "scan_string_char lx =
     (let c = current lx
      in if c = eof then string_error ''missing closing quote'' lx
         else if c = 0x22 then Return tok_value_string lx
         else if c = 0x5C then scan_escape lx
         else if 0x00 \<le> c \<and> c \<le> 0x1F then string_error (control_message c) lx
         else if 0x20 \<le> c \<and> c \<le> 0x7F then Next (add c lx)
         else scan_multibyte lx)"

lemma codepoint_loop_pending: "pending (snd (get_codepoint_loop fs n lx)) \<le> pending lx"
proof (induction fs arbitrary: n lx)
  case (Cons f fs)
  show ?case
  proof (cases "hex_value (current (get lx))")
    case None
    then show ?thesis using get_pending_le [of lx] by (simp add: Let_def)
  next
    case (Some v)
    then show ?thesis
      using get_pending_le [of lx] Cons [of "n + push_bit f v" "get lx"] by (simp add: Let_def)
  qed
qed simp

lemma get_codepoint_pending: "pending (snd (get_codepoint lx)) \<le> pending lx"
  unfolding get_codepoint_def by (rule codepoint_loop_pending)

lemma bytes_in_range_pending: "pending (snd (bytes_in_range rs lx)) \<le> pending lx"
proof (induction rs arbitrary: lx)
  case (Cons r rs)
  obtain lo hi where r: "r = (lo, hi)" by (cases r)
  show ?case
    using Cons [of "add (current (get lx)) (get lx)"] get_pending_le [of lx]
    by (auto simp: r Let_def)
qed simp

lemma add_codepoint_pending [simp]: "pending (add_codepoint cp lx) = pending lx"
  by (simp add: add_codepoint_def)

primrec result_lexer :: "scan_result \<Rightarrow> lexer" where
  "result_lexer (Return t lx) = lx"
| "result_lexer (Next lx) = lx"

lemma string_error_result [simp]: "pending (result_lexer (string_error msg lx)) = pending lx"
  by (simp add: string_error_def)

lemma string_error_Next [simp]: "string_error msg lx \<noteq> Next lx'"
  by (simp add: string_error_def)

lemma scan_surrogate_pending: "pending (result_lexer (scan_surrogate cp lx)) \<le> pending lx"
  using get_pending_le [of lx] get_pending_le [of "get lx"] get_codepoint_pending [of "get (get lx)"]
  by (auto simp: scan_surrogate_def Let_def split: prod.split)

lemma scan_unicode_escape_pending: "pending (result_lexer (scan_unicode_escape lx)) \<le> pending lx"
  using get_codepoint_pending [of lx]
  by (auto simp: scan_unicode_escape_def Let_def intro: le_trans [OF scan_surrogate_pending]
      split: prod.split)

lemma scan_escape_pending: "pending (result_lexer (scan_escape lx)) \<le> pending lx"
  using get_pending_le [of lx] scan_unicode_escape_pending [of "get lx"]
  by (auto simp: scan_escape_def Let_def)

lemma scan_multibyte_pending: "pending (result_lexer (scan_multibyte lx)) \<le> pending lx"
proof -
  have "pending (result_lexer (case next_byte_in_range rs lx of (True, lx1) \<Rightarrow> Next lx1
      | (False, lx1) \<Rightarrow> Return tok_parse_error lx1)) \<le> pending lx" for rs
    using bytes_in_range_pending [of rs "add (current lx) lx"]
    by (auto simp: next_byte_in_range_def split: prod.splits bool.splits)
  then show ?thesis by (simp add: scan_multibyte_def Let_def)
qed

lemma scan_string_char_pending: "pending (result_lexer (scan_string_char lx)) \<le> pending lx"
  using scan_escape_pending [of lx] scan_multibyte_pending [of lx]
  by (simp add: scan_string_char_def Let_def)

lemma scan_string_char_eof: "scan_string_char lx = Next lx' \<Longrightarrow> current lx \<noteq> eof"
  by (auto simp: scan_string_char_def)

function scan_string_loop :: "lexer \<Rightarrow> token_type \<times> lexer" where
  "scan_string_loop lx =
     (case scan_string_char (get lx) of
        Return t lx1 \<Rightarrow> (t, lx1)
      | Next lx1 \<Rightarrow> scan_string_loop lx1)"
  by pat_completeness auto
termination
proof (relation "measure pending")
  fix lx lx1 assume "scan_string_char (get lx) = Next lx1"
  with scan_string_char_eof [OF this] get_pending [of lx] scan_string_char_pending [of "get lx"]
  show "(lx1, lx) \<in> measure pending" by simp
qed simp

declare scan_string_loop.simps [simp del]

definition scan_string :: "lexer \<Rightarrow> token_type \<times> lexer" where
  "scan_string lx = scan_string_loop (reset lx)"

section \<open>Numbers\<close>

datatype number_label =
    scan_number_minus | scan_number_zero | scan_number_any1 | scan_number_decimal1
  | scan_number_decimal2 | scan_number_exponent | scan_number_sign | scan_number_any2

text \<open>
  Where the \<open>switch\<close> at a label goes: to another label after adding the character, to
  \<open>scan_number_done\<close>, or out with an error.
\<close>

datatype number_jump = Goto number_label | Number_done | Number_error string

abbreviation is_digit_char :: "int \<Rightarrow> bool" where
  "is_digit_char c \<equiv> 0x30 \<le> c \<and> c \<le> 0x39"

definition at_minus :: "int \<Rightarrow> number_jump" where
  "at_minus c =
     (if c = 0x30 then Goto scan_number_zero
      else if 0x31 \<le> c \<and> c \<le> 0x39 then Goto scan_number_any1
      else Number_error (''invalid number; expected digit after '' @ quoted ''-''))"

definition at_zero :: "int \<Rightarrow> number_jump" where
  "at_zero c =
     (if c = 0x2E then Goto scan_number_decimal1
      else if c = 0x65 \<or> c = 0x45 then Goto scan_number_exponent
      else Number_done)"

definition at_any1 :: "int \<Rightarrow> number_jump" where
  "at_any1 c =
     (if is_digit_char c then Goto scan_number_any1
      else if c = 0x2E then Goto scan_number_decimal1
      else if c = 0x65 \<or> c = 0x45 then Goto scan_number_exponent
      else Number_done)"

definition at_decimal1 :: "int \<Rightarrow> number_jump" where
  "at_decimal1 c =
     (if is_digit_char c then Goto scan_number_decimal2
      else Number_error (''invalid number; expected digit after '' @ quoted ''.''))"

definition at_decimal2 :: "int \<Rightarrow> number_jump" where
  "at_decimal2 c =
     (if is_digit_char c then Goto scan_number_decimal2
      else if c = 0x65 \<or> c = 0x45 then Goto scan_number_exponent
      else Number_done)"

definition at_exponent :: "int \<Rightarrow> number_jump" where
  "at_exponent c =
     (if c = 0x2B \<or> c = 0x2D then Goto scan_number_sign
      else if is_digit_char c then Goto scan_number_any2
      else Number_error (''invalid number; expected '' @ quoted ''+'' @ '', '' @ quoted ''-''
             @ '', or digit after exponent''))"

definition at_sign :: "int \<Rightarrow> number_jump" where
  "at_sign c =
     (if is_digit_char c then Goto scan_number_any2
      else Number_error ''invalid number; expected digit after exponent sign'')"

definition at_any2 :: "int \<Rightarrow> number_jump" where
  "at_any2 c = (if is_digit_char c then Goto scan_number_any2 else Number_done)"

definition number_switch :: "number_label \<Rightarrow> int \<Rightarrow> number_jump" where
  "number_switch l =
     (case l of
        scan_number_minus \<Rightarrow> at_minus
      | scan_number_zero \<Rightarrow> at_zero
      | scan_number_any1 \<Rightarrow> at_any1
      | scan_number_decimal1 \<Rightarrow> at_decimal1
      | scan_number_decimal2 \<Rightarrow> at_decimal2
      | scan_number_exponent \<Rightarrow> at_exponent
      | scan_number_sign \<Rightarrow> at_sign
      | scan_number_any2 \<Rightarrow> at_any2)"

text \<open>The assignments to \<open>number_type\<close> at three of the labels.\<close>

definition number_type_at :: "number_label \<Rightarrow> token_type \<Rightarrow> token_type" where
  "number_type_at l number_type =
     (if l = scan_number_minus then tok_value_integer
      else if l = scan_number_decimal1 \<or> l = scan_number_exponent then tok_value_float
      else number_type)"

text \<open>
  \<open>std::strtoull\<close> and \<open>std::strtoll\<close> on a complete literal; \<^term>\<open>None\<close> when they set
  \<open>errno\<close>.
\<close>

definition strtoull :: "string \<Rightarrow> u64 option" where
  "strtoull s = (let v = digits_value s in if v < 2 ^ 64 then Some (of_int v) else None)"

definition strtoll :: "string \<Rightarrow> s64 option" where
  "strtoll s =
     (let (neg, ds) = split_sign s;
          v = (if neg then - digits_value ds else digits_value ds)
      in if - (2 ^ 63) \<le> v \<and> v < 2 ^ 63 then Some (of_int v) else None)"

definition scan_number_done :: "token_type \<Rightarrow> lexer \<Rightarrow> token_type \<times> lexer" where
  "scan_number_done number_type lx =
     (let lx1 = unget lx;
          as_float = (tok_value_float, lx1\<lparr>value_float := strtod (token_buffer lx1)\<rparr>)
      in if number_type = tok_value_unsigned then
           (case strtoull (token_buffer lx1) of
              Some x \<Rightarrow> (tok_value_unsigned, lx1\<lparr>value_unsigned := x\<rparr>)
            | None \<Rightarrow> as_float)
         else if number_type = tok_value_integer then
           (case strtoll (token_buffer lx1) of
              Some x \<Rightarrow> (tok_value_integer, lx1\<lparr>value_integer := x\<rparr>)
            | None \<Rightarrow> as_float)
         else as_float)"

lemma number_switch_eof: "number_switch l eof \<noteq> Goto l'"
  by (cases l) (simp_all add: number_switch_def at_minus_def at_zero_def at_any1_def at_decimal1_def
      at_decimal2_def at_exponent_def at_sign_def at_any2_def)

function scan_number_goto :: "number_label \<Rightarrow> token_type \<Rightarrow> lexer \<Rightarrow> token_type \<times> lexer" where
  "scan_number_goto l number_type lx =
     (let number_type' = number_type_at l number_type; lx1 = get lx
      in case number_switch l (current lx1) of
           Goto l' \<Rightarrow> scan_number_goto l' number_type' (add (current lx1) lx1)
         | Number_done \<Rightarrow> scan_number_done number_type' lx1
         | Number_error msg \<Rightarrow> (tok_parse_error, lex_error msg lx1))"
  by pat_completeness auto
termination
proof (relation "measure (\<lambda>(l, t, lx). pending lx)")
  fix l t lx nt lx1 l'
  assume "lx1 = get lx" and "number_switch l (current lx1) = Goto l'"
  then show "((l', nt, add (current lx1) lx1), l, t, lx) \<in> measure (\<lambda>(l, t, lx). pending lx)"
    using number_switch_eof get_pending [of lx] by fastforce
qed simp

declare scan_number_goto.simps [simp del]

text \<open>The \<open>switch\<close> on the first character; \<open>scan\<close> calls it on a minus sign or a digit.\<close>

definition scan_number :: "lexer \<Rightarrow> token_type \<times> lexer" where
  "scan_number lx =
     (let lx1 = reset lx; c = current lx1; lx2 = add c lx1
      in if c = 0x2D then scan_number_goto scan_number_minus tok_value_unsigned lx2
         else if c = 0x30 then scan_number_goto scan_number_zero tok_value_unsigned lx2
         else scan_number_goto scan_number_any1 tok_value_unsigned lx2)"

section \<open>Literals and tokens\<close>

fun scan_literal_rest :: "string \<Rightarrow> token_type \<Rightarrow> lexer \<Rightarrow> token_type \<times> lexer" where
  "scan_literal_rest [] return_type lx = (return_type, lx)"
| "scan_literal_rest (c # cs) return_type lx =
     (let lx1 = get lx
      in if current lx1 \<noteq> of_char c then (tok_parse_error, lex_error ''invalid literal'' lx1)
         else scan_literal_rest cs return_type lx1)"

definition scan_literal :: "string \<Rightarrow> token_type \<Rightarrow> lexer \<Rightarrow> token_type \<times> lexer" where
  "scan_literal literal_text return_type lx = scan_literal_rest (tl literal_text) return_type lx"

definition skip_bom :: "lexer \<Rightarrow> bool \<times> lexer" where
  "skip_bom lx =
     (let lx1 = get lx
      in if current lx1 = 0xEF then
           (let lx2 = get lx1
            in if current lx2 = 0xBB then (let lx3 = get lx2 in (current lx3 = 0xBF, lx3))
               else (False, lx2))
         else (True, unget lx1))"

definition is_space :: "int \<Rightarrow> bool" where
  "is_space c \<longleftrightarrow> c = 0x20 \<or> c = 0x09 \<or> c = 0x0A \<or> c = 0x0D"

function skip_whitespace :: "lexer \<Rightarrow> lexer" where
  "skip_whitespace lx =
     (let lx1 = get lx in if is_space (current lx1) then skip_whitespace lx1 else lx1)"
  by pat_completeness auto
termination
  by (relation "measure pending") (auto simp: is_space_def intro!: get_pending)

declare skip_whitespace.simps [simp del]

definition scan_token :: "lexer \<Rightarrow> token_type \<times> lexer" where
  "scan_token lx =
     (let c = current lx
      in if c = 0x5B then (tok_begin_array, lx)
         else if c = 0x5D then (tok_end_array, lx)
         else if c = 0x7B then (tok_begin_object, lx)
         else if c = 0x7D then (tok_end_object, lx)
         else if c = 0x3A then (tok_name_separator, lx)
         else if c = 0x2C then (tok_value_separator, lx)
         else if c = 0x74 then scan_literal ''true'' tok_literal_true lx
         else if c = 0x66 then scan_literal ''false'' tok_literal_false lx
         else if c = 0x6E then scan_literal ''null'' tok_literal_null lx
         else if c = 0x22 then scan_string lx
         else if c = 0x2D \<or> is_digit_char c then scan_number lx
         else if c = 0x00 \<or> c = eof then (tok_end_of_input, lx)
         else (tok_parse_error, lex_error ''invalid literal'' lx))"

definition scan :: "lexer \<Rightarrow> token_type \<times> lexer" where
  "scan lx =
     (let (bom_ok, lx1) = (if chars_read_total (position lx) = 0 then skip_bom lx else (True, lx))
      in if \<not> bom_ok
         then (tok_parse_error, lex_error ''invalid BOM; must be 0xEF 0xBB 0xBF if given'' lx1)
         else scan_token (skip_whitespace lx1))"

section \<open>Progress of the scanner\<close>

lemma unget_pending: "pending (unget lx) \<le> pending lx + 1"
  by (simp add: pending_def unget_def Let_def)

lemma number_done_pending: "pending (snd (scan_number_done t lx)) \<le> pending lx + (if current lx = eof then 0 else 1)"
  by (auto simp: scan_number_done_def Let_def pending_def unget_def split: option.splits)

lemma number_goto_pending: "pending (snd (scan_number_goto l t lx)) \<le> pending lx"
proof (induction l t lx rule: scan_number_goto.induct)
  case (1 l t lx)
  show ?case
    using 1 get_pending [of lx] get_pending_le [of lx]
      number_done_pending [of "number_type_at l t" "get lx"]
    by (subst scan_number_goto.simps)
      (fastforce simp: Let_def split: number_jump.splits if_splits)
qed

lemma string_loop_pending: "pending (snd (scan_string_loop lx)) \<le> pending lx"
proof (induction lx rule: scan_string_loop.induct)
  case (1 lx)
  show ?case
    using 1 get_pending_le [of lx] scan_string_char_pending [of "get lx"]
    by (subst scan_string_loop.simps) (auto split: scan_result.split)
qed

lemma literal_rest_pending: "pending (snd (scan_literal_rest cs t lx)) \<le> pending lx"
proof (induction cs arbitrary: lx)
  case (Cons c cs)
  from Cons [of "get lx"] get_pending_le [of lx] show ?case by (simp add: Let_def)
qed simp

lemma whitespace_pending:
  "pending (skip_whitespace lx) \<le> pending lx
     \<and> (current (skip_whitespace lx) \<noteq> eof \<longrightarrow> pending (skip_whitespace lx) < pending lx)"
proof (induction lx rule: skip_whitespace.induct)
  case (1 lx)
  show ?case
  proof (cases "is_space (current (get lx))")
    case True
    then show ?thesis
      using 1 [OF refl True] get_pending_le [of lx] skip_whitespace.simps [of lx] by (auto simp: Let_def)
  next
    case False
    then show ?thesis
      using get_pending_le [of lx] get_pending [of lx] skip_whitespace.simps [of lx] by (simp add: Let_def)
  qed
qed

lemma scan_token_pending: "pending (snd (scan_token lx)) \<le> pending lx"
proof -
  have "pending (snd (scan_string lx)) \<le> pending lx"
    using string_loop_pending [of "reset lx"] by (simp add: scan_string_def)
  moreover have "pending (snd (scan_literal s t lx)) \<le> pending lx" for s t
    by (simp add: scan_literal_def literal_rest_pending)
  moreover have "pending (snd (scan_number lx)) \<le> pending lx"
    by (auto simp: scan_number_def Let_def intro: le_trans [OF number_goto_pending])
  ultimately show ?thesis by (simp add: scan_token_def Let_def)
qed

lemma scan_token_eof: "current lx = eof \<Longrightarrow> fst (scan_token lx) = tok_end_of_input"
  by (simp add: scan_token_def)

lemma skip_bom_pending: "pending (snd (skip_bom lx)) \<le> pending lx"
proof -
  have "pending (unget (get lx)) \<le> pending lx"
    using get_pending_le [of lx] get_pending [of lx] unget_pending [of "get lx"]
    by (cases "current (get lx) = eof") (auto simp: pending_def unget_def Let_def)
  then show ?thesis
    using get_pending_le [of lx] get_pending_le [of "get lx"] get_pending_le [of "get (get lx)"]
    by (auto simp: skip_bom_def Let_def)
qed

text \<open>Every token but the two that stop the parser takes at least one character of the input.\<close>

lemma scan_pending_le: "pending (snd (scan lx)) \<le> pending lx"
  using skip_bom_pending [of lx]
  by (auto simp: scan_def Let_def intro!: le_trans [OF scan_token_pending]
      intro: le_trans [OF conjunct1 [OF whitespace_pending]] split: prod.splits if_splits)

lemma scan_pending:
  assumes "fst (scan lx) \<noteq> tok_end_of_input" and "fst (scan lx) \<noteq> tok_parse_error"
  shows "pending (snd (scan lx)) < pending lx"
proof -
  obtain ok lx1 where p: "(if chars_read_total (position lx) = 0 then skip_bom lx else (True, lx)) = (ok, lx1)"
    by fastforce
  have le: "pending lx1 \<le> pending lx" using p skip_bom_pending [of lx] by (auto split: if_splits)
  have scan: "scan lx = scan_token (skip_whitespace lx1)"
    using assms by (auto simp: scan_def p split: if_splits)
  then have "current (skip_whitespace lx1) \<noteq> eof" using assms(1) scan_token_eof by metis
  then have "pending (skip_whitespace lx1) < pending lx1" using whitespace_pending by blast
  with le scan scan_token_pending [of "skip_whitespace lx1"] show ?thesis by simp
qed

end
