(* ===== verification/Json_Tokens.thy ===== *)
theory Json_Tokens
  imports Json_Serializer Json_Lexer
begin

text \<open>
  What the lexer does with the text the serializer writes: \<open>reads lx s\<close> says that \<open>s\<close> is what
  a lexer is about to read, and for every kind of token there is a lemma that scanning it
  leaves the rest of the text. The second half shows that a string token is well-formed UTF-8,
  whatever the input.
\<close>

section \<open>What a lexer is about to read\<close>

definition upcoming :: "lexer \<Rightarrow> string" where
  "upcoming lx = (if next_unget lx \<and> current lx \<noteq> eof then [to_char_type (current lx)] else []) @ ia lx"

definition lexer_ok :: "lexer \<Rightarrow> bool" where
  "lexer_ok lx \<longleftrightarrow> (next_unget lx \<and> current lx = eof \<longrightarrow> ia lx = [])
     \<and> (current lx = eof \<or> 0 \<le> current lx \<and> current lx < 256)"

definition reads :: "lexer \<Rightarrow> string \<Rightarrow> bool" where
  "reads lx s \<longleftrightarrow> lexer_ok lx \<and> upcoming lx = s"

abbreviation total :: "lexer \<Rightarrow> nat" where
  "total lx \<equiv> chars_read_total (position lx)"

lemma of_char_int_range [simp]: "0 \<le> (of_char c :: int)" "(of_char c :: int) \<noteq> eof"
proof -
  have "0 \<le> int (of_char c)" by simp
  then show "0 \<le> (of_char c :: int)" by (simp add: of_nat_of_char)
  then show "(of_char c :: int) \<noteq> eof" by linarith
qed

lemma to_char_of_char [simp]: "to_char_type (of_char c) = c"
  by (simp add: to_char_type_def)

lemma of_to_char: "0 \<le> k \<Longrightarrow> k < 256 \<Longrightarrow> of_char (to_char_type k) = k"
  by (simp add: to_char_type_def)

lemma get_keeps [simp]:
  "token_buffer (get lx) = token_buffer lx" "next_unget (get lx) = False" "total (get lx) = total lx + 1"
  by (simp_all add: get_def get_character_def Let_def split: list.split)

lemma get_Cons:
  assumes "reads lx (c # cs)"
  shows "current (get lx) = of_char c" "reads (get lx) cs"
  using assms
  by (auto simp: reads_def upcoming_def lexer_ok_def get_def get_character_def Let_def of_to_char
      split: list.splits if_splits)

lemma get_Nil:
  assumes "reads lx []"
  shows "current (get lx) = eof" "reads (get lx) []"
  using assms
  by (auto simp: reads_def upcoming_def lexer_ok_def get_def get_character_def Let_def
      split: list.splits if_splits)

lemma reads_keeps [simp]:
  "reads (add k lx) s = reads lx s" "reads (reset lx) s = reads lx s" "reads (lex_error m lx) s = reads lx s"
  "total (add k lx) = total lx" "total (reset lx) = total lx"
  "token_buffer (add k lx) = token_buffer lx @ [to_char_type k]" "token_buffer (reset lx) = []"
  "next_unget (add k lx) = next_unget lx" "next_unget (reset lx) = next_unget lx"
  by (simp_all add: reads_def upcoming_def lexer_ok_def add_def reset_def lex_error_def)

lemma unget_reads:
  assumes "reads lx cs" and "\<not> next_unget lx" and "current lx = eof \<Longrightarrow> cs = []"
  shows "reads (unget lx) ((if current lx = eof then [] else [to_char_type (current lx)]) @ cs)"
  using assms
  by (auto simp: reads_def upcoming_def lexer_ok_def unget_def Let_def)

lemma unget_keeps [simp]:
  "total (unget lx) = total lx - 1" "token_buffer (unget lx) = token_buffer lx" "current (unget lx) = current lx"
  by (simp_all add: unget_def Let_def)

lemma reads_lexer_init: "reads (lexer_init s) s" "total (lexer_init s) = 0"
  by (simp_all add: lexer_init_def reads_def upcoming_def lexer_ok_def)

section \<open>Strings\<close>

lemma codepoint_reads:
  assumes "reads lx (h1 # h2 # h3 # h4 # cs)"
    and "hex_value (of_char h1) = Some v1" "hex_value (of_char h2) = Some v2"
    and "hex_value (of_char h3) = Some v3" "hex_value (of_char h4) = Some v4"
  shows "\<exists>lx'. get_codepoint lx = (4096 * v1 + 256 * v2 + 16 * v3 + v4, lx') \<and> reads lx' cs
     \<and> token_buffer lx' = token_buffer lx \<and> total lx \<le> total lx'"
proof -
  note g = get_Cons [OF assms(1)] get_Cons [OF get_Cons(2) [OF assms(1)]]
    get_Cons [OF get_Cons(2) [OF get_Cons(2) [OF assms(1)]]]
    get_Cons [OF get_Cons(2) [OF get_Cons(2) [OF get_Cons(2) [OF assms(1)]]]]
  show ?thesis
    using assms(2-) g by (simp add: get_codepoint_def Let_def push_bit_eq_mult)
qed

text \<open>The characters below 0x80 that are not copied as they are.\<close>

definition short_escape :: "char \<Rightarrow> char option" where
  "short_escape c = map_of [(CHR 0x08, CHR ''b''), (CHR 0x09, CHR ''t''), (CHR 0x0A, CHR ''n''),
     (CHR 0x0C, CHR ''f''), (CHR 0x0D, CHR ''r''), (CHR 0x22, CHR 0x22), (CHR 0x5C, CHR 0x5C)] c"

lemma escape_byte_check:
  "list_all (\<lambda>c. of_char c < (0x80 :: nat) \<longrightarrow> escape_byte c =
     (case short_escape c of Some e \<Rightarrow> [CHR 0x5C, e]
      | None \<Rightarrow> if of_char c < (0x20 :: nat)
                then [CHR 0x5C, CHR ''u'', CHR ''0'', CHR ''0'',
                      (if of_char c < (16 :: nat) then CHR ''0'' else CHR ''1''),
                      ''0123456789abcdef'' ! (of_char c mod 16)]
                else [c])) enum_class.enum"
  by code_simp

lemma escape_byte_ascii:
  "of_char c < (0x80 :: nat) \<Longrightarrow> escape_byte c =
     (case short_escape c of Some e \<Rightarrow> [CHR 0x5C, e]
      | None \<Rightarrow> if of_char c < (0x20 :: nat)
                then [CHR 0x5C, CHR ''u'', CHR ''0'', CHR ''0'',
                      (if of_char c < (16 :: nat) then CHR ''0'' else CHR ''1''),
                      ''0123456789abcdef'' ! (of_char c mod 16)]
                else [c])"
  using all_chars [OF escape_byte_check, of c] by simp

lemma hex_digit_check:
  "list_all (\<lambda>n. hex_value (of_char (''0123456789abcdef'' ! n)) = Some (int n)) [0..<16]"
  by code_simp

lemma hex_value_digit: "n < 16 \<Longrightarrow> hex_value (of_char (''0123456789abcdef'' ! n)) = Some (int n)"
  using hex_digit_check by (simp add: list_all_iff del: upt_Suc)

lemma scan_unicode_escape_reads:
  assumes n: "n < 0x20" and r: "reads lx (CHR ''0'' # CHR ''0'' # (if n < 16 then CHR ''0'' else CHR ''1'')
     # (''0123456789abcdef'' ! (n mod 16)) # cs)"
  shows "\<exists>lx'. scan_unicode_escape lx = Next lx' \<and> reads lx' cs
     \<and> token_buffer lx' = token_buffer lx @ [char_of n]"
proof -
  have "16 * (if n < 16 then 0 else 1) + int (n mod 16) = int n"
    using n by (auto simp: mod_offset [of 1])
  moreover have "hex_value (of_char (if n < 16 then CHR ''0'' else CHR ''1'')) = Some (if n < 16 then 0 else 1)"
    "hex_value (of_char (CHR ''0'')) = Some 0"
    by (simp_all add: hex_value_def)
  ultimately obtain lx' where "get_codepoint lx = (int n, lx')" "reads lx' cs" "token_buffer lx' = token_buffer lx"
    using codepoint_reads [OF r _ _ _ hex_value_digit, of 0 0 "if n < 16 then 0 else 1"] by auto
  moreover have "to_char_type (int n) = char_of n" by (simp add: to_char_type_def char_of_def bit_of_nat_iff)
  ultimately show ?thesis
    using n by (simp add: scan_unicode_escape_def add_codepoint_def)
qed

text \<open>One iteration of the string loop on the escape of a character below 0x80.\<close>

lemma scan_string_ascii:
  assumes c: "of_char c < (0x80 :: nat)" and r: "reads lx (escape_byte c @ cs)"
  shows "\<exists>lx'. scan_string_char (get lx) = Next lx' \<and> reads lx' cs
     \<and> token_buffer lx' = token_buffer lx @ [c]"
proof (cases "short_escape c")
  case (Some e)
  with c r have "reads lx (CHR 0x5C # e # cs)" by (simp add: escape_byte_ascii)
  note g = get_Cons [OF this] get_Cons [OF get_Cons(2) [OF this]]
  from Some show ?thesis
    unfolding short_escape_def
    by (auto simp: scan_string_char_def scan_escape_def g to_char_type_def char_of_def split: if_splits)
next
  case None
  show ?thesis
  proof (cases "of_char c < (0x20 :: nat)")
    case True
    let ?h = "CHR ''0'' # CHR ''0'' # (if of_char c < (16 :: nat) then CHR ''0'' else CHR ''1'')
      # (''0123456789abcdef'' ! (of_char c mod 16)) # cs"
    from True None c r have "reads lx (CHR 0x5C # CHR ''u'' # ?h)" by (simp add: escape_byte_ascii)
    note g = get_Cons [OF this] get_Cons [OF get_Cons(2) [OF this]]
    show ?thesis
      using scan_unicode_escape_reads [OF True g(4)] by (simp add: scan_string_char_def scan_escape_def g)
  next
    case False
    with None c r have "reads lx (c # cs)" by (simp add: escape_byte_ascii)
    note g = get_Cons [OF this]
    have "(of_char c :: int) \<noteq> 0x22" "(of_char c :: int) \<noteq> 0x5C"
      using None of_char_eq_iff [of c "CHR 0x22", where 'a = int] of_char_eq_iff [of c "CHR 0x5C", where 'a = int]
      by (auto simp: short_escape_def split: if_splits)
    moreover have "0x20 \<le> (of_char c :: int)" "(of_char c :: int) < 0x80"
      using c False by (simp_all add: of_char_nat_int [symmetric])
    ultimately show ?thesis
      by (simp add: scan_string_char_def g Let_def)
  qed
qed

text \<open>The continuation bytes of a multi-byte sequence.\<close>

lemma continuation_reads:
  assumes "utf8_valid_pending rs s" and "\<forall>(lo, hi) \<in> set rs. 0x80 \<le> lo"
  shows "\<exists>u v. s = u @ v \<and> utf8_valid v \<and> concat (map escape_byte u) = u
     \<and> (\<forall>lx cs. reads lx (u @ cs) \<longrightarrow>
          (\<exists>lx'. bytes_in_range rs lx = (True, lx') \<and> reads lx' cs
             \<and> token_buffer lx' = token_buffer lx @ u))"
  using assms
proof (induction rs arbitrary: s)
  case (Cons r rs)
  obtain lo hi where r: "r = (lo, hi)" by (cases r)
  with Cons.prems obtain c t where s: "s = c # t" "lo \<le> of_char c" "of_char c \<le> hi" "utf8_valid_pending rs t"
    by (cases s) auto
  from Cons.IH [OF s(4)] Cons.prems(2) obtain u v where uv: "t = u @ v" "utf8_valid v" "concat (map escape_byte u) = u"
    "\<And>lx cs. reads lx (u @ cs) \<Longrightarrow> \<exists>lx'. bytes_in_range rs lx = (True, lx') \<and> reads lx' cs
             \<and> token_buffer lx' = token_buffer lx @ u"
    by auto
  have "0x80 \<le> (of_char c :: nat)"
    using Cons.prems(2) r s(2) by (simp add: of_char_nat_int [symmetric])
  then have esc: "escape_byte c = [c]" by (rule escape_byte_high)
  have "\<exists>lx'. bytes_in_range (r # rs) lx = (True, lx') \<and> reads lx' cs
             \<and> token_buffer lx' = token_buffer lx @ c # u" if R: "reads lx ((c # u) @ cs)" for lx cs
  proof -
    have R': "reads lx (c # u @ cs)" using R by simp
    note g = get_Cons [OF R']
    from g s uv(4) [of "add (of_char c) (get lx)" cs] show ?thesis by (simp add: r Let_def)
  qed
  with uv esc show ?case by (intro exI [of _ "c # u"] exI [of _ v]) (simp add: s)
next
  case Nil
  then show ?case by (intro exI [of _ "[]"] exI [of _ s]) simp
qed

lemma utf8_ranges_high: "utf8_ranges b = Some rs \<Longrightarrow> \<forall>(lo, hi) \<in> set rs. 0x80 \<le> lo"
  by (auto simp: utf8_ranges_def split: if_splits)

lemma scan_multibyte_ranges:
  assumes "utf8_ranges (current lx) = Some rs" "rs \<noteq> []"
  shows "scan_string_char lx = (case next_byte_in_range rs lx of
     (True, lx1) \<Rightarrow> Next lx1 | (False, lx1) \<Rightarrow> Return tok_parse_error lx1)"
  using assms by (auto simp: scan_string_char_def scan_multibyte_def utf8_ranges_def Let_def split: if_splits)

lemma scan_string_reads:
  assumes "utf8_valid s" and "reads lx (concat (map escape_byte s) @ CHR 0x22 # cs)"
  shows "\<exists>lx'. scan_string_loop lx = (tok_value_string, lx') \<and> reads lx' cs
     \<and> token_buffer lx' = token_buffer lx @ s"
  using assms
proof (induction s arbitrary: lx rule: length_induct)
  case (1 s)
  show ?case
  proof (cases s)
    case Nil
    with 1(3) have "reads lx (CHR 0x22 # cs)" by simp
    from get_Cons [OF this] show ?thesis
      by (subst scan_string_loop.simps) (simp add: scan_string_char_def Nil)
  next
    case (Cons c t)
    with 1(2) obtain rs where rs: "utf8_ranges (of_char c) = Some rs" "utf8_valid_pending rs t"
      by (auto split: option.splits)
    have "\<exists>lx' u v. scan_string_char (get lx) = Next lx' \<and> t = u @ v \<and> utf8_valid v
       \<and> token_buffer lx' = token_buffer lx @ c # u \<and> reads lx' (concat (map escape_byte v) @ CHR 0x22 # cs)"
    proof (cases "rs = []")
      case True
      have "of_char c < (0x80 :: nat)" using rs(1) True ranges_ascii by simp
      from scan_string_ascii [OF this, of lx "concat (map escape_byte t) @ CHR 0x22 # cs"] 1(3) rs True
      show ?thesis by (auto simp: Cons)
    next
      case False
      from continuation_reads [OF rs(2) utf8_ranges_high [OF rs(1)]] obtain u v where uv: "t = u @ v" "utf8_valid v"
        "concat (map escape_byte u) = u"
        "\<And>lx cs. reads lx (u @ cs) \<Longrightarrow> \<exists>lx'. bytes_in_range rs lx = (True, lx') \<and> reads lx' cs
             \<and> token_buffer lx' = token_buffer lx @ u"
        by blast
      have "escape_byte c = [c]" using ranges_lead [OF rs(1) False] by (rule escape_byte_high)
      with 1(3) uv have "reads lx (c # u @ concat (map escape_byte v) @ CHR 0x22 # cs)" by (simp add: Cons)
      note g = get_Cons [OF this]
      from uv(4) [of "add (of_char c) (get lx)"] g(2) obtain lx' where
        "bytes_in_range rs (add (of_char c) (get lx)) = (True, lx')"
        "reads lx' (concat (map escape_byte v) @ CHR 0x22 # cs)" "token_buffer lx' = token_buffer lx @ c # u"
        by auto
      with g uv rs False show ?thesis
        by (intro exI [of _ lx'] exI [of _ u] exI [of _ v]) (simp add: scan_multibyte_ranges next_byte_in_range_def)
    qed
    then obtain lx' u v where step: "scan_string_char (get lx) = Next lx'" "t = u @ v" "utf8_valid v"
       "token_buffer lx' = token_buffer lx @ c # u" "reads lx' (concat (map escape_byte v) @ CHR 0x22 # cs)"
      by blast
    have "length v < length s" using step by (simp add: Cons)
    from 1(1) [rule_format, OF this step(3,5)] step show ?thesis
      by (subst scan_string_loop.simps) (auto simp: Cons)
  qed
qed

section \<open>Numbers\<close>

lemma reads_values [simp]:
  "reads (lx\<lparr>value_unsigned := u\<rparr>) cs = reads lx cs" "reads (lx\<lparr>value_integer := k\<rparr>) cs = reads lx cs"
  by (simp_all add: reads_def upcoming_def lexer_ok_def)

lemma digit_char: "d < 10 \<Longrightarrow> (of_char (char_of (48 + d) :: char) :: int) = 48 + int d"
  using of_char_nat_int [of "char_of (48 + d)"] by simp

lemma digit_char_props:
  assumes "d < 10"
  shows "is_digit (char_of (48 + d))" "digit_value (char_of (48 + d)) = int d"
  using digit_char [OF assms] assms by (simp_all add: is_digit_def digit_value_def)

lemma to_string_digits: "list_all is_digit (to_string n)"
proof (induction n rule: to_string.induct)
  case (1 n)
  then show ?case
    by (cases "n < 10") (simp_all add: to_string_less to_string_ge digit_char_props)
qed

lemma digits_value_to_string: "digits_value (to_string n) = int n"
proof (induction n rule: to_string.induct)
  case (1 n)
  show ?case
  proof (cases "n < 10")
    case False
    with 1 show ?thesis
      by (simp add: to_string_ge digits_value_def digit_char_props zdiv_int zmod_int)
  qed (simp add: to_string_less digits_value_def digit_char_props)
qed

lemma to_string_first:
  "0 < n \<Longrightarrow> \<exists>d ds. to_string n = d # ds \<and> 0x31 \<le> (of_char d :: int) \<and> (of_char d :: int) \<le> 0x39 \<and> list_all is_digit ds"
proof (induction n rule: to_string.induct)
  case (1 n)
  show ?case
  proof (cases "n < 10")
    case True
    with 1(2) digit_char [OF True] show ?thesis by (simp add: to_string_less)
  next
    case False
    with 1 obtain d ds where "to_string (n div 10) = d # ds"
      "0x31 \<le> (of_char d :: int) \<and> (of_char d :: int) \<le> 0x39 \<and> list_all is_digit ds" by force
    then show ?thesis using False by (simp add: to_string_ge digit_char_props)
  qed
qed

text \<open>What may follow a number so that the scanner stops there.\<close>

definition number_end :: "string \<Rightarrow> bool" where
  "number_end cs \<longleftrightarrow> (case cs of [] \<Rightarrow> True
     | c # _ \<Rightarrow> \<not> is_digit c \<and> c \<noteq> CHR ''.'' \<and> c \<noteq> CHR ''e'' \<and> c \<noteq> CHR ''E'')"

definition at_end :: "lexer \<Rightarrow> string \<Rightarrow> bool" where
  "at_end lx cs \<longleftrightarrow> \<not> next_unget lx \<and> (case cs of [] \<Rightarrow> current lx = eof \<and> reads lx []
     | c # cs' \<Rightarrow> current lx = of_char c \<and> reads lx cs')"

lemma at_end_get: "reads lx cs \<Longrightarrow> at_end (get lx) cs"
  by (cases cs) (auto simp: at_end_def get_Cons get_Nil)

lemma at_end_unget: "at_end lx cs \<Longrightarrow> reads (unget lx) cs"
  using unget_reads [of lx] by (cases cs) (fastforce simp: at_end_def)+

lemma number_end_switch:
  assumes "number_end cs" and "at_end lx cs"
  shows "number_switch scan_number_any1 (current lx) = Number_done"
    "number_switch scan_number_zero (current lx) = Number_done"
proof -
  have "of_char c \<noteq> (0x2E :: int) \<and> of_char c \<noteq> (0x65 :: int) \<and> of_char c \<noteq> (0x45 :: int)"
    if "c \<noteq> CHR ''.''" "c \<noteq> CHR ''e''" "c \<noteq> CHR ''E''" for c
    using that of_char_eq_iff [of c "CHR ''.''", where 'a = int] of_char_eq_iff [of c "CHR ''e''", where 'a = int]
      of_char_eq_iff [of c "CHR ''E''", where 'a = int] by simp
  then show "number_switch scan_number_any1 (current lx) = Number_done"
    "number_switch scan_number_zero (current lx) = Number_done"
    using assms
    by (auto simp: number_end_def at_end_def number_switch_def at_any1_def at_zero_def is_digit_def
        split: list.splits)
qed

lemma any1_reads:
  assumes "list_all is_digit ds" and "number_end cs" and "reads lx (ds @ cs)"
  shows "\<exists>lx'. scan_number_goto scan_number_any1 t lx = scan_number_done t lx' \<and> at_end lx' cs
     \<and> token_buffer lx' = token_buffer lx @ ds"
  using assms
proof (induction ds arbitrary: lx)
  case Nil
  then have e: "at_end (get lx) cs" by (simp add: at_end_get)
  from number_end_switch(1) [OF Nil(2) e] e show ?case
    by (intro exI [of _ "get lx"], subst scan_number_goto.simps) (simp add: number_type_at_def)
next
  case (Cons d ds)
  then have R: "reads lx (d # ds @ cs)" by simp
  note g = get_Cons [OF R]
  have sw: "number_switch scan_number_any1 (of_char d) = Goto scan_number_any1"
    using Cons.prems(1) by (simp add: number_switch_def at_any1_def is_digit_def)
  from Cons.IH [of "add (of_char d) (get lx)"] Cons.prems g sw show ?case
    by (subst scan_number_goto.simps) (simp add: number_type_at_def Let_def)
qed

text \<open>The digits of a number, after the label at which they start.\<close>

lemma to_string_reads:
  assumes "number_end cs" and "reads lx (tl (to_string n) @ cs)"
  shows "\<exists>lx'. scan_number_goto (if n = 0 then scan_number_zero else scan_number_any1) t lx = scan_number_done t lx'
     \<and> at_end lx' cs \<and> token_buffer lx' = token_buffer lx @ tl (to_string n)"
proof (cases "n = 0")
  case True
  with assms have e: "at_end (get lx) cs" by (simp add: at_end_get to_string_zero)
  from number_end_switch(2) [OF assms(1) e] e True show ?thesis
    by (intro exI [of _ "get lx"], subst scan_number_goto.simps) (simp add: number_type_at_def to_string_zero)
next
  case False
  with to_string_first [of n] assms any1_reads show ?thesis by auto
qed

lemma scan_number_unsigned:
  assumes "n < 2 ^ 64" and "number_end cs"
    and "current lx = of_char (hd (to_string n))" and "reads lx (tl (to_string n) @ cs)"
  shows "\<exists>lx'. scan_number lx = (tok_value_unsigned, lx') \<and> reads lx' cs \<and> value_unsigned lx' = of_nat n"
proof -
  let ?lx = "add (current lx) (reset lx)"
  let ?l = "if n = 0 then scan_number_zero else scan_number_any1"
  have start: "scan_number lx = scan_number_goto ?l tok_value_unsigned ?lx"
    using to_string_first [of n] assms(3) by (auto simp: scan_number_def to_string_zero Let_def)
  from to_string_reads [OF assms(2), of ?lx n] assms(4) obtain lx' where lx':
    "scan_number lx = scan_number_done tok_value_unsigned lx'" "at_end lx' cs"
    "token_buffer lx' = to_string n"
    using assms(3) by (auto simp: start)
  moreover have "strtoull (to_string n) = Some (of_nat n)"
    using assms(1) by (simp add: strtoull_def digits_value_to_string)
  moreover note at_end_unget [OF lx'(2)]
  ultimately show ?thesis by (simp add: scan_number_done_def)
qed

lemma scan_number_negative:
  assumes "0 < n" and "n \<le> 2 ^ 63" and "number_end cs"
    and "current lx = of_char (CHR ''-'')" and "reads lx (to_string n @ cs)"
  shows "\<exists>lx'. scan_number lx = (tok_value_integer, lx') \<and> reads lx' cs \<and> value_integer lx' = - of_nat n"
proof -
  let ?lx = "add (current lx) (reset lx)"
  obtain d ds where d: "to_string n = d # ds" "0x31 \<le> (of_char d :: int)" "(of_char d :: int) \<le> 0x39"
    using to_string_first [OF assms(1)] by auto
  have R: "reads ?lx (d # ds @ cs)" using assms(5) by (simp add: d)
  note g = get_Cons [OF R]
  have start: "scan_number lx = scan_number_goto scan_number_any1 tok_value_integer (add (of_char d) (get ?lx))"
    using d assms(4) g
    by (simp add: scan_number_def Let_def scan_number_goto.simps [of scan_number_minus] number_switch_def
        at_minus_def number_type_at_def)
  from to_string_reads [OF assms(3), of "add (of_char d) (get ?lx)" n] g(2) assms(1) obtain lx' where lx':
    "scan_number lx = scan_number_done tok_value_integer lx'" "at_end lx' cs"
    "token_buffer lx' = CHR ''-'' # to_string n"
    using assms(4) to_char_of_char [of "CHR ''-''"] by (auto simp: start d)
  moreover have "strtoll (CHR ''-'' # to_string n) = Some (- of_nat n)"
    using assms(2) by (simp add: strtoll_def split_sign_def digits_value_to_string)
  moreover note at_end_unget [OF lx'(2)]
  ultimately show ?thesis by (simp add: scan_number_done_def)
qed

section \<open>Tokens\<close>

lemma scan_start:
  assumes "reads lx (c # cs)" and "\<not> is_space (of_char c)" and "c \<noteq> CHR 0xEF"
  shows "\<exists>lx1. scan lx = scan_token lx1 \<and> current lx1 = of_char c \<and> reads lx1 cs"
proof -
  have ef: "of_char c \<noteq> (0xEF :: int)"
    using assms(3) of_char_eq_iff [of c "CHR 0xEF", where 'a = int] by simp
  have skip: "skip_whitespace lx2 = get lx2" if "reads lx2 (c # cs)" for lx2
    using get_Cons [OF that] assms(2) by (subst skip_whitespace.simps) simp
  note g = get_Cons [OF assms(1)]
  have "reads (unget (get lx)) (c # cs)"
    using unget_reads [OF g(2)] g(1) by simp
  with g ef skip show ?thesis
    using get_Cons [OF \<open>reads (unget (get lx)) (c # cs)\<close>] skip [OF assms(1)]
    by (auto simp: scan_def skip_bom_def Let_def)
qed

lemma scan_end: "reads lx [] \<Longrightarrow> fst (scan lx) = tok_end_of_input"
proof -
  assume r: "reads lx []"
  note g = get_Nil [OF r]
  have u: "reads (unget (get lx)) []" using unget_reads [OF g(2)] g(1) by simp
  have "current (skip_whitespace lx2) = eof" if "reads lx2 []" for lx2
    using get_Nil [OF that] by (subst skip_whitespace.simps) (simp add: is_space_def)
  with r u g show ?thesis by (simp add: scan_def skip_bom_def scan_token_eof)
qed

definition token_reads :: "lexer \<Rightarrow> token_type \<Rightarrow> string \<Rightarrow> bool" where
  "token_reads lx t cs \<longleftrightarrow> fst (scan lx) = t \<and> reads (snd (scan lx)) cs"

lemma literal_reads:
  "reads lx (ds @ cs) \<Longrightarrow> \<exists>lx'. scan_literal_rest ds t lx = (t, lx') \<and> reads lx' cs"
proof (induction ds arbitrary: lx)
  case (Cons d ds)
  then have R: "reads lx (d # ds @ cs)" by simp
  from Cons.IH [OF get_Cons(2) [OF R]] get_Cons(1) [OF R] show ?case by (simp add: Let_def)
qed simp

lemma scan_structural:
  assumes "reads lx (c # cs)"
    and "(c, t) \<in> {(CHR ''['', tok_begin_array), (CHR '']'', tok_end_array), (CHR ''{'', tok_begin_object),
       (CHR ''}'', tok_end_object), (CHR '':'', tok_name_separator), (CHR '','', tok_value_separator)}"
  shows "token_reads lx t cs"
proof -
  have "\<not> is_space (of_char c)" "c \<noteq> CHR 0xEF" using assms(2) by (auto simp: is_space_def)
  from scan_start [OF assms(1) this] assms(2) show ?thesis
    by (auto simp: token_reads_def scan_token_def)
qed

lemma scan_literals:
  "reads lx (''true'' @ cs) \<Longrightarrow> token_reads lx tok_literal_true cs"
  "reads lx (''false'' @ cs) \<Longrightarrow> token_reads lx tok_literal_false cs"
  "reads lx (''null'' @ cs) \<Longrightarrow> token_reads lx tok_literal_null cs"
proof -
  have lit: "token_reads lx t cs"
    if "reads lx ((c # ds) @ cs)" "c \<in> {CHR ''t'', CHR ''f'', CHR ''n''}"
      "\<And>lx1. current lx1 = of_char c \<Longrightarrow> scan_token lx1 = scan_literal_rest ds t lx1" for c ds t
  proof -
    from that(1,2) obtain lx1 where "scan lx = scan_token lx1" "current lx1 = of_char c" "reads lx1 (ds @ cs)"
      using scan_start [of lx c "ds @ cs"] by (auto simp: is_space_def)
    with that(3) literal_reads [of lx1 ds cs t] show ?thesis by (auto simp: token_reads_def)
  qed
  show "reads lx (''true'' @ cs) \<Longrightarrow> token_reads lx tok_literal_true cs"
    by (rule lit [of "CHR ''t''" "''rue''"]) (simp_all add: scan_token_def scan_literal_def)
  show "reads lx (''false'' @ cs) \<Longrightarrow> token_reads lx tok_literal_false cs"
    by (rule lit [of "CHR ''f''" "''alse''"]) (simp_all add: scan_token_def scan_literal_def)
  show "reads lx (''null'' @ cs) \<Longrightarrow> token_reads lx tok_literal_null cs"
    by (rule lit [of "CHR ''n''" "''ull''"]) (simp_all add: scan_token_def scan_literal_def)
qed

lemma scan_quoted:
  assumes "reads lx (quote_text s @ cs)" and "utf8_valid s"
  shows "token_reads lx tok_value_string cs \<and> token_buffer (snd (scan lx)) = s"
proof -
  have "reads lx (CHR 0x22 # concat (map escape_byte s) @ CHR 0x22 # cs)"
    using assms(1) by (simp add: quote_text_def)
  from scan_start [OF this] obtain lx1 where lx1: "scan lx = scan_token lx1" "current lx1 = 0x22"
    "reads (reset lx1) (concat (map escape_byte s) @ CHR 0x22 # cs)"
    by (auto simp: is_space_def)
  from scan_string_reads [OF assms(2) lx1(3)] lx1(1,2) show ?thesis
    by (auto simp: token_reads_def scan_token_def scan_string_def)
qed

lemma scan_unsigned:
  assumes "reads lx (to_string n @ cs)" and "n < 2 ^ 64" and "number_end cs"
  shows "token_reads lx tok_value_unsigned cs \<and> value_unsigned (snd (scan lx)) = of_nat n"
proof -
  obtain d ds where d: "to_string n = d # ds" "is_digit d"
    using to_string_digits [of n] by (cases "to_string n") auto
  then have R: "reads lx (d # ds @ cs)" using assms(1) by simp
  have "\<not> is_space (of_char d)" "d \<noteq> CHR 0xEF" using d(2) by (auto simp: is_space_def is_digit_def)
  from scan_start [OF R this] obtain lx1 where lx1: "scan lx = scan_token lx1" "current lx1 = of_char d"
    "reads lx1 (ds @ cs)" by auto
  have "scan_token lx1 = scan_number lx1"
    using d(2) lx1(2) by (simp add: scan_token_def is_digit_def)
  with scan_number_unsigned [OF assms(2,3), of lx1] lx1 d show ?thesis
    by (auto simp: token_reads_def)
qed

lemma scan_negative:
  assumes "reads lx (CHR ''-'' # to_string n @ cs)" and "0 < n" and "n \<le> 2 ^ 63" and "number_end cs"
  shows "token_reads lx tok_value_integer cs \<and> value_integer (snd (scan lx)) = - of_nat n"
proof -
  from scan_start [OF assms(1)] obtain lx1 where lx1: "scan lx = scan_token lx1" "current lx1 = of_char (CHR ''-'')"
    "reads lx1 (to_string n @ cs)" by (auto simp: is_space_def)
  moreover have "scan_token lx1 = scan_number lx1" using lx1(2) by (simp add: scan_token_def)
  ultimately show ?thesis
    using scan_number_negative [OF assms(2-4), of lx1] by (auto simp: token_reads_def)
qed

section \<open>String tokens are well-formed\<close>

lemma utf8_pending_append: "utf8_valid_pending rs s \<Longrightarrow> utf8_valid t \<Longrightarrow> utf8_valid_pending rs (s @ t)"
  by (induction rs s rule: utf8_valid_pending.induct) (auto split: option.splits)

lemma or_add: 
  fixes x :: int 
  assumes "0 \<le> x" "x < 2 ^ n" 
  shows "push_bit n a OR x = push_bit n a + x"
proof -
  have "x = take_bit n x" using assms by (simp add: take_bit_int_eq_self)
  moreover have "push_bit n a AND take_bit n x = 0" by (rule bit_eqI) (auto simp: bit_simps)
  ultimately show ?thesis by (metis disjunctive_add_eq_or)
qed

lemma lead_bytes:
  fixes x :: int
  shows "0 \<le> x \<Longrightarrow> x < 0x20 \<Longrightarrow> 0xC0 OR x = 0xC0 + x" "0 \<le> x \<Longrightarrow> x < 0x10 \<Longrightarrow> 0xE0 OR x = 0xE0 + x"
    "0 \<le> x \<Longrightarrow> x < 0x8 \<Longrightarrow> 0xF0 OR x = 0xF0 + x" "0x80 OR (x AND 0x3F) = 0x80 + x mod 64"
proof -
  show "0 \<le> x \<Longrightarrow> x < 0x20 \<Longrightarrow> 0xC0 OR x = 0xC0 + x" using or_add [of x 5 6] by (simp add: push_bit_eq_mult)
  show "0 \<le> x \<Longrightarrow> x < 0x10 \<Longrightarrow> 0xE0 OR x = 0xE0 + x" using or_add [of x 4 14] by (simp add: push_bit_eq_mult)
  show "0 \<le> x \<Longrightarrow> x < 0x8 \<Longrightarrow> 0xF0 OR x = 0xF0 + x" using or_add [of x 3 30] by (simp add: push_bit_eq_mult)
  have "x AND 0x3F = x mod 64" using take_bit_eq_mask [of 6 x] by (simp add: take_bit_eq_mod mask_eq_exp_minus_1)
  then show "0x80 OR (x AND 0x3F) = 0x80 + x mod 64"
    using or_add [of "x mod 64" 6 2] by (simp add: push_bit_eq_mult)
qed

definition scalar_value :: "int \<Rightarrow> bool" where
  "scalar_value cp \<longleftrightarrow> 0 \<le> cp \<and> cp \<le> 0x10FFFF \<and> \<not> (0xD800 \<le> cp \<and> cp \<le> 0xDFFF)"

lemma byte_of_char_type: "0 \<le> k \<Longrightarrow> k < 256 \<Longrightarrow> (of_char (to_char_type k) :: int) = k"
  by (rule of_to_char)

lemma two_bytes: "0xC2 \<le> a \<Longrightarrow> a \<le> 0xDF \<Longrightarrow> 0x80 \<le> b \<Longrightarrow> b \<le> 0xBF \<Longrightarrow> utf8_valid [to_char_type a, to_char_type b]"
  by (simp add: of_to_char utf8_ranges_def)

lemma three_bytes:
  "0xE0 \<le> a \<Longrightarrow> a \<le> 0xEF \<Longrightarrow> 0x80 \<le> b \<Longrightarrow> b \<le> 0xBF \<Longrightarrow> 0x80 \<le> c \<Longrightarrow> c \<le> 0xBF \<Longrightarrow>
   (a = 0xE0 \<Longrightarrow> 0xA0 \<le> b) \<Longrightarrow> (a = 0xED \<Longrightarrow> b \<le> 0x9F) \<Longrightarrow>
   utf8_valid [to_char_type a, to_char_type b, to_char_type c]"
  by (auto simp add: of_to_char utf8_ranges_def)

lemma four_bytes:
  "0xF0 \<le> a \<Longrightarrow> a \<le> 0xF4 \<Longrightarrow> 0x80 \<le> b \<Longrightarrow> b \<le> 0xBF \<Longrightarrow> 0x80 \<le> c \<Longrightarrow> c \<le> 0xBF \<Longrightarrow> 0x80 \<le> d \<Longrightarrow> d \<le> 0xBF \<Longrightarrow>
   (a = 0xF0 \<Longrightarrow> 0x90 \<le> b) \<Longrightarrow> (a = 0xF4 \<Longrightarrow> b \<le> 0x8F) \<Longrightarrow>
   utf8_valid [to_char_type a, to_char_type b, to_char_type c, to_char_type d]"
  by (auto simp add: of_to_char utf8_ranges_def)

lemma sextet_split:
  fixes cp :: int
  shows "\<exists>x m. cp div 4096 = x \<and> cp div 64 mod 64 = m \<and> cp div 262144 = x div 64 \<and> cp div 64 = 64 * x + m \<and> 0 \<le> m \<and> m < 64"
    "\<exists>y l. cp div 64 = y \<and> cp mod 64 = l \<and> cp = 64 * y + l \<and> 0 \<le> l \<and> l < 64"
proof -
  have "cp div 4096 = cp div 64 div 64" "cp div 262144 = cp div 4096 div 64"
    using zdiv_zmult2_eq [of 64 cp 64] zdiv_zmult2_eq [of 64 cp 4096] by simp_all
  then show "\<exists>x m. cp div 4096 = x \<and> cp div 64 mod 64 = m \<and> cp div 262144 = x div 64 \<and> cp div 64 = 64 * x + m \<and> 0 \<le> m \<and> m < 64"
    using mult_div_mod_eq [of 64 "cp div 64"] pos_mod_sign [of 64 "cp div 64"] pos_mod_bound [of 64 "cp div 64"]
    by (intro exI conjI) (rule refl | simp only:)+
  show "\<exists>y l. cp div 64 = y \<and> cp mod 64 = l \<and> cp = 64 * y + l \<and> 0 \<le> l \<and> l < 64"
    using mult_div_mod_eq [of 64 cp] pos_mod_sign [of 64 cp] pos_mod_bound [of 64 cp]
    by (intro exI conjI) (rule refl | simp only:)+
qed

lemma three_byte_codepoint:
  assumes "scalar_value cp" "0x7FF < cp" "cp \<le> 0xFFFF" "cp = 4096 * x + 64 * m + l" "0 \<le> m" "m < 64" "0 \<le> l" "l < 64"
  shows "0 \<le> x \<and> x < 0x10 \<and> utf8_valid [to_char_type (0xE0 + x), to_char_type (0x80 + m), to_char_type (0x80 + l)]"
proof -
  have "0 \<le> x" using assms(2-) by linarith
  moreover have "x < 0x10" using assms(2-) by linarith
  moreover have "0x20 \<le> m" if "x = 0" using that assms(2-) by linarith
  moreover have "m \<le> 0x1F" if "x = 0xD" using that assms unfolding scalar_value_def by linarith
  ultimately show ?thesis using assms(5-) by (intro conjI three_bytes) simp_all
qed

lemma four_byte_codepoint:
  assumes "scalar_value cp" "0xFFFF < cp" "cp = 262144 * w + 4096 * x + 64 * m + l" "0 \<le> x" "x < 64"
    "0 \<le> m" "m < 64" "0 \<le> l" "l < 64"
  shows "0 \<le> w \<and> w < 8 \<and> utf8_valid [to_char_type (0xF0 + w), to_char_type (0x80 + x), to_char_type (0x80 + m),
     to_char_type (0x80 + l)]"
proof -
  have "cp \<le> 0x10FFFF" using assms(1) by (simp add: scalar_value_def)
  have "0 \<le> w" using assms(2-) by linarith
  moreover have "w \<le> 4" using \<open>cp \<le> 0x10FFFF\<close> assms(2-) by linarith
  moreover have "0x10 \<le> x" if "w = 0" using that assms(2-) by linarith
  moreover have "x \<le> 0xF" if "w = 4" using that \<open>cp \<le> 0x10FFFF\<close> assms(2-) by linarith
  ultimately show ?thesis using assms(4-) by (intro conjI four_bytes) simp_all
qed

lemma add_codepoint_utf8:
  assumes "scalar_value cp"
  shows "\<exists>u. token_buffer (add_codepoint cp lx) = token_buffer lx @ u \<and> utf8_valid u"
proof -
  obtain y l where y: "cp div 64 = y" "cp mod 64 = l" "cp = 64 * y + l" "0 \<le> l" "l < 64"
    using sextet_split(2) by blast
  obtain x m where x: "cp div 4096 = x" "y mod 64 = m" "cp div 262144 = x div 64" "y = 64 * x + m" "0 \<le> m" "m < 64"
    using sextet_split(1) [of cp] y(1) by blast
  obtain w k where w: "x div 64 = w" "x mod 64 = k" "x = 64 * w + k" "0 \<le> k" "k < 64"
    using sextet_split(2) [of x] by blast
  note parts = y(1,2) x(1,2,3) w(1,2)
  consider "cp < 0x80" | "0x80 \<le> cp" "cp \<le> 0x7FF" | "0x7FF < cp" "cp \<le> 0xFFFF" | "0xFFFF < cp" by linarith
  then show ?thesis
  proof cases
    case 1
    with assms show ?thesis by (simp add: add_codepoint_def scalar_value_def of_to_char utf8_ranges_def)
  next
    case 2
    with y have "2 \<le> y" "y < 0x20" by linarith+
    with 2 two_bytes [of "0xC0 + y" "0x80 + l"] y(4,5) show ?thesis
      by (simp add: add_codepoint_def lead_bytes drop_bit_eq_div parts)
  next
    case 3
    have "cp = 4096 * x + 64 * m + l" using x(4) y(3) by simp
    from three_byte_codepoint [OF assms 3 this x(5,6) y(4,5)] 3 show ?thesis
      by (simp add: add_codepoint_def lead_bytes drop_bit_eq_div parts)
  next
    case 4
    have "cp = 262144 * w + 4096 * k + 64 * m + l" using w(3) x(4) y(3) by simp
    from four_byte_codepoint [OF assms 4 this w(4,5) x(5,6) y(4,5)] 4 show ?thesis
      by (simp add: add_codepoint_def lead_bytes drop_bit_eq_div parts)
  qed
qed

lemma codepoint_loop_range:
  assumes "get_codepoint_loop fs n lx = (cp, lx')" and "0 \<le> n"
  shows "token_buffer lx' = token_buffer lx \<and> (cp = -1 \<or> n \<le> cp \<and> cp \<le> n + sum_list (map (\<lambda>f. 15 * 2 ^ f) fs))"
  using assms
proof (induction fs arbitrary: n lx)
  case (Cons f fs)
  show ?case
  proof (cases "hex_value (current (get lx))")
    case None
    then show ?thesis using Cons.prems by (auto simp: Let_def)
  next
    case (Some v)
    then have v: "0 \<le> v" "v \<le> 15" by (auto simp: hex_value_def split: if_splits)
    then have "0 \<le> push_bit f v" "push_bit f v \<le> 15 * 2 ^ f" by (simp_all add: push_bit_eq_mult)
    with Cons.IH [of "n + push_bit f v" "get lx"] Cons.prems Some show ?thesis
      by (auto simp: Let_def simp del: push_bit_nonnegative_int_iff)
  qed
qed simp

lemma get_codepoint_range:
  "get_codepoint lx = (cp, lx') \<Longrightarrow> token_buffer lx' = token_buffer lx \<and> (cp = -1 \<or> 0 \<le> cp \<and> cp \<le> 0xFFFF)"
  unfolding get_codepoint_def by (drule codepoint_loop_range) simp_all

text \<open>A piece of the string loop that goes on has appended well-formed bytes.\<close>

definition extends :: "lexer \<Rightarrow> scan_result \<Rightarrow> bool" where
  "extends lx r \<longleftrightarrow> (case r of
     Next lx' \<Rightarrow> \<exists>u. token_buffer lx' = token_buffer lx @ u \<and> utf8_valid u
   | Return t lx' \<Rightarrow> t = tok_value_string \<longrightarrow> token_buffer lx' = token_buffer lx)"

lemma string_error_extends [simp]: "extends lx (string_error m lx')"
  by (simp add: extends_def string_error_def)

lemma extends_get [simp]: "extends (get lx) r = extends lx r"
  by (simp add: extends_def split: scan_result.split)

lemma extends_codepoint: "scalar_value cp \<Longrightarrow> token_buffer lx' = token_buffer lx \<Longrightarrow> extends lx (Next (add_codepoint cp lx'))"
  using add_codepoint_utf8 [of cp lx'] by (simp add: extends_def)

lemma extends_ascii: "0 \<le> k \<Longrightarrow> k \<le> 0x7F \<Longrightarrow> token_buffer lx' = token_buffer lx \<Longrightarrow> extends lx (Next (add k lx'))"
  by (simp add: extends_def of_to_char utf8_ranges_def)

lemma surrogate_extends:
  assumes "0xD800 \<le> cp" and "cp \<le> 0xDBFF"
  shows "extends lx (scan_surrogate cp lx)"
proof -
  obtain cp2 lx3 where c: "get_codepoint (get (get lx)) = (cp2, lx3)" by fastforce
  have "scalar_value (push_bit 10 cp + cp2 - 0x35FDC00)" if "0xDC00 \<le> cp2" "cp2 \<le> 0xDFFF"
    using that assms by (auto simp: scalar_value_def push_bit_eq_mult)
  with get_codepoint_range [OF c] show ?thesis
    by (simp add: scan_surrogate_def Let_def c extends_codepoint)
qed

lemma unicode_escape_extends: "extends lx (scan_unicode_escape lx)"
proof -
  obtain cp lx1 where c: "get_codepoint lx = (cp, lx1)" by fastforce
  have eq: "extends lx r = extends lx1 r" for r
    using get_codepoint_range [OF c] by (simp add: extends_def split: scan_result.split)
  have "scalar_value cp" if "cp \<noteq> -1" "\<not> (0xD800 \<le> cp \<and> cp \<le> 0xDBFF)" "\<not> (0xDC00 \<le> cp \<and> cp \<le> 0xDFFF)"
    using that get_codepoint_range [OF c] by (auto simp: scalar_value_def)
  then show ?thesis
    by (simp add: scan_unicode_escape_def Let_def c eq extends_codepoint surrogate_extends)
qed

lemma bytes_in_range_utf8:
  "bytes_in_range rs lx = (True, lx') \<Longrightarrow> \<forall>(lo, hi) \<in> set rs. 0 \<le> lo \<and> hi < 256 \<Longrightarrow>
     \<exists>u. token_buffer lx' = token_buffer lx @ u \<and> utf8_valid_pending rs u"
proof (induction rs arbitrary: lx)
  case (Cons r rs)
  obtain lo hi where r: "r = (lo, hi)" by (cases r)
  let ?c = "current (get lx)"
  from Cons.prems have c: "lo \<le> ?c" "?c \<le> hi" "bytes_in_range rs (add ?c (get lx)) = (True, lx')"
    by (auto simp: r Let_def split: if_splits)
  with Cons.IH [OF c(3)] Cons.prems(2) obtain u where
    "token_buffer lx' = token_buffer lx @ to_char_type ?c # u" "utf8_valid_pending rs u" by auto
  moreover have "of_char (to_char_type ?c) = ?c"
    using c Cons.prems(2) by (intro of_to_char) (auto simp: r)
  ultimately show ?case using c by (intro exI [of _ "to_char_type ?c # u"]) (simp add: r)
qed simp

lemma utf8_ranges_bytes: "utf8_ranges b = Some rs \<Longrightarrow> \<forall>(lo, hi) \<in> set rs. 0 \<le> lo \<and> hi < 256"
  by (auto simp: utf8_ranges_def split: if_splits)

lemma multibyte_extends: "extends lx (scan_multibyte lx)"
proof (cases "\<exists>rs. utf8_ranges (current lx) = Some rs \<and> rs \<noteq> []")
  case True
  then obtain rs where rs: "utf8_ranges (current lx) = Some rs" "rs \<noteq> []" by auto
  then have c: "0x80 \<le> current lx" "current lx < 256" by (auto simp: utf8_ranges_def split: if_splits)
  have m: "scan_multibyte lx = (case next_byte_in_range rs lx of
      (True, lx1) \<Rightarrow> Next lx1 | (False, lx1) \<Rightarrow> Return tok_parse_error lx1)"
    using scan_multibyte_ranges [OF rs] c by (simp add: scan_string_char_def Let_def)
  show ?thesis
  proof (cases "next_byte_in_range rs lx")
    case (Pair ok lx1)
    then show ?thesis
      using bytes_in_range_utf8 [of rs "add (current lx) lx" lx1] utf8_ranges_bytes [OF rs(1)] c rs(1)
      by (cases ok) (auto simp: m extends_def next_byte_in_range_def of_to_char)
  qed
next
  case False
  then have "scan_multibyte lx = string_error ''ill-formed UTF-8 byte'' lx"
    by (auto simp: scan_multibyte_def utf8_ranges_def Let_def split: if_splits)
  then show ?thesis by simp
qed

lemma escape_extends: "extends lx (scan_escape lx)"
  using unicode_escape_extends [of "get lx"] by (simp add: scan_escape_def Let_def extends_ascii)

lemma string_char_extends: "extends lx (scan_string_char lx)"
  using escape_extends [of lx] multibyte_extends [of lx]
  by (simp add: scan_string_char_def Let_def extends_ascii) (simp add: extends_def)

lemma scan_string_utf8:
  assumes "utf8_valid (token_buffer lx)" and "scan_string_loop lx = (tok_value_string, lx')"
  shows "utf8_valid (token_buffer lx')"
  using assms
proof (induction lx rule: scan_string_loop.induct)
  case (1 lx)
  show ?case
  proof (cases "scan_string_char (get lx)")
    case (Return t lx1)
    with 1(2,3) string_char_extends [of "get lx"] show ?thesis
      by (simp add: extends_def scan_string_loop.simps [of lx])
  next
    case (Next lx1)
    with string_char_extends [of "get lx"] obtain u where "token_buffer lx1 = token_buffer lx @ u" "utf8_valid u"
      by (auto simp: extends_def)
    with 1 Next utf8_pending_append show ?thesis by (simp add: scan_string_loop.simps [of lx])
  qed
qed

lemma number_not_string: "fst (scan_number lx) \<noteq> tok_value_string"
proof -
  have stop: "fst (scan_number_done t lx) \<noteq> tok_value_string" for t lx
    by (simp add: scan_number_done_def Let_def split: option.split)
  have "fst (scan_number_goto l t lx) \<noteq> tok_value_string" for l t lx
  proof (induction l t lx rule: scan_number_goto.induct)
    case (1 l t lx)
    then show ?case
      using stop scan_number_goto.simps [of l t lx]
      by (cases "number_switch l (current (get lx))") (simp_all add: Let_def)
  qed
  then show ?thesis by (simp add: scan_number_def Let_def)
qed

lemma literal_not_string: "t \<noteq> tok_value_string \<Longrightarrow> fst (scan_literal_rest s t lx) \<noteq> tok_value_string"
  by (induction s arbitrary: lx) (simp_all add: Let_def)

lemma scan_utf8:
  assumes "fst (scan lx) = tok_value_string"
  shows "utf8_valid (token_buffer (snd (scan lx)))"
proof -
  obtain lx1 where s: "scan lx = scan_token lx1"
    using assms by (auto simp: scan_def Let_def split: prod.splits if_splits)
  have "current lx1 \<noteq> 0x22 \<Longrightarrow> fst (scan_token lx1) \<noteq> tok_value_string"
    by (simp add: scan_token_def Let_def number_not_string scan_literal_def literal_not_string)
  with assms s have "current lx1 = 0x22" by auto
  then have "scan_token lx1 = scan_string lx1" by (simp add: scan_token_def)
  with assms s scan_string_utf8 [of "reset lx1"] show ?thesis
    by (simp add: scan_string_def prod_eq_iff)
qed

section \<open>Properties\<close>

text \<open>
  C18: when \<open>scan\<close> returns \<open>value_string\<close>, the string it has collected is well-formed UTF-8:
  raw bytes are checked, escaped code points are encoded, lone surrogates are refused.
\<close>

theorem scan_string_well_formed:
  assumes "fst (scan lx) = tok_value_string"
  shows "utf8_valid (token_buffer (snd (scan lx)))"
  using assms by (rule scan_utf8)

theorem scan_string_well_formed_witness:
  "utf8_valid (token_buffer (snd (scan (lexer_init (quote_text ''ok'')))))"
proof (rule scan_string_well_formed)
  have r: "reads (lexer_init (quote_text ''ok'')) (quote_text ''ok'' @ [])" by (simp add: reads_lexer_init)
  have "utf8_valid ''ok''" by code_simp
  from scan_quoted [OF r this] show "fst (scan (lexer_init (quote_text ''ok''))) = tok_value_string"
    by (simp add: token_reads_def)
qed

end
