(* ===== verification/Json_Parser.thy ===== *)
theory Json_Parser
  imports Json_Lexer
begin

text \<open>
  The parser of \<^verbatim>\<open>src/externals/json/nlohmann/json.hpp\<close>: the DOM builder
  (\<open>json_sax_dom_parser\<close>), the driver loop (\<open>parser::sax_parse_internal\<close>) and
  \<open>basic_json::parse\<close>. The builder holds pointers into the tree it grows; here a pointer is
  the path from the root to the value.
\<close>

section \<open>Pointers into a value\<close>

datatype step = Key string | Index nat

type_synonym path = "step list"

fun follow :: "path \<Rightarrow> json \<Rightarrow> json option" where
  "follow [] j = Some j"
| "follow (Key k # p) (Object m) = (case map_of m k of Some v \<Rightarrow> follow p v | None \<Rightarrow> None)"
| "follow (Index i # p) (Array xs) = (if i < length xs then follow p (xs ! i) else None)"
| "follow _ _ = None"

text \<open>Replaces the value a path leads to by its image under \<open>f\<close>.\<close>

fun modify :: "path \<Rightarrow> (json \<Rightarrow> json) \<Rightarrow> json \<Rightarrow> json" where
  "modify [] f j = f j"
| "modify (Key k # p) f (Object m) =
     (case map_of m k of Some v \<Rightarrow> Object (map_assign k (modify p f v) m) | None \<Rightarrow> Object m)"
| "modify (Index i # p) f (Array xs) =
     (if i < length xs then Array (xs[i := modify p f (xs ! i)]) else Array xs)"
| "modify _ f j = j"

section \<open>The DOM builder\<close>

record dom =
  root :: json
  ref_stack :: "path list" \<comment> \<open>the last element of the vector first\<close>
  object_element :: path
  errored :: bool
  allow_exceptions :: bool

definition dom_init :: "json \<Rightarrow> bool \<Rightarrow> dom" where
  "dom_init r allow = \<lparr>root = r, ref_stack = [], object_element = [], errored = False,
     allow_exceptions = allow\<rparr>"

definition handle_value :: "json \<Rightarrow> dom \<Rightarrow> path \<times> dom" where
  "handle_value v d =
     (case ref_stack d of
        [] \<Rightarrow> ([], d\<lparr>root := v\<rparr>)
      | p # _ \<Rightarrow>
          (case follow p (root d) of
             Some (Array xs) \<Rightarrow>
               (p @ [Index (length xs)], d\<lparr>root := modify p (\<lambda>_. Array (xs @ [v])) (root d)\<rparr>)
           | _ \<Rightarrow>
               (object_element d, d\<lparr>root := modify (object_element d) (\<lambda>_. v) (root d)\<rparr>)))"

definition sax_scalar :: "json \<Rightarrow> dom \<Rightarrow> dom" where
  "sax_scalar v d = snd (handle_value v d)"

definition start_object :: "dom \<Rightarrow> dom" where
  "start_object d = (let (p, d') = handle_value (Object []) d in d'\<lparr>ref_stack := p # ref_stack d'\<rparr>)"

definition key :: "string \<Rightarrow> dom \<Rightarrow> dom" where
  "key val d =
     (let p = hd (ref_stack d)
      in d\<lparr>root := modify p (\<lambda>j. case j of Object m \<Rightarrow> Object (map_emplace val Null m) | _ \<Rightarrow> j) (root d),
           object_element := p @ [Key val]\<rparr>)"

definition end_object :: "dom \<Rightarrow> dom" where
  "end_object d = d\<lparr>ref_stack := tl (ref_stack d)\<rparr>"

definition start_array :: "dom \<Rightarrow> dom" where
  "start_array d = (let (p, d') = handle_value (Array []) d in d'\<lparr>ref_stack := p # ref_stack d'\<rparr>)"

definition end_array :: "dom \<Rightarrow> dom" where
  "end_array d = d\<lparr>ref_stack := tl (ref_stack d)\<rparr>"

text \<open>\<open>json_sax_dom_parser::parse_error\<close>: throws, or records the error and returns false.\<close>

definition sax_parse_error :: "json_exception \<Rightarrow> dom \<Rightarrow> json_exception + bool \<times> dom" where
  "sax_parse_error ex d =
     (let d' = d\<lparr>errored := True\<rparr> in if allow_exceptions d' then Inl ex else Inr (False, d'))"

section \<open>The parser\<close>

record parser =
  m_lexer :: lexer
  last_token :: token_type

definition get_token :: "parser \<Rightarrow> parser" where
  "get_token p = (let (t, lx) = scan (m_lexer p) in p\<lparr>m_lexer := lx, last_token := t\<rparr>)"

text \<open>The constructor reads the first token.\<close>

definition parser_init :: "string \<Rightarrow> parser" where
  "parser_init input = get_token \<lparr>m_lexer = lexer_init input, last_token = tok_uninitialized\<rparr>"

definition exception_message :: "token_type \<Rightarrow> string \<Rightarrow> parser \<Rightarrow> string" where
  "exception_message expected context p =
     ''syntax error ''
     @ (if context \<noteq> [] then ''while parsing '' @ context @ '' '' else [])
     @ ''- ''
     @ (if last_token p = tok_parse_error
        then error_message (m_lexer p) @ ''; last read: '' @ quoted (get_token_string (m_lexer p))
        else ''unexpected '' @ token_type_name (last_token p))
     @ (if expected \<noteq> tok_uninitialized then ''; expected '' @ token_type_name expected else [])"

definition position_string :: "position_t \<Rightarrow> string" where
  "position_string pos =
     '' at line '' @ to_string (lines_read pos + 1) @ '', column '' @ to_string (chars_read_current_line pos)"

definition parse_error_create :: "nat \<Rightarrow> position_t \<Rightarrow> string \<Rightarrow> json_exception" where
  "parse_error_create ident pos what_arg =
     parse_error ident (chars_read_total pos)
       (exception_name ''parse_error'' ident @ ''parse error'' @ position_string pos @ '': '' @ what_arg)"

text \<open>The error the parser reports at an unexpected token.\<close>

definition syntax_error :: "token_type \<Rightarrow> string \<Rightarrow> parser \<Rightarrow> json_exception" where
  "syntax_error expected context p =
     parse_error_create 101 (position (m_lexer p)) (exception_message expected context p)"

text \<open>
  The state of the loop in \<open>sax_parse_internal\<close>. An iteration continues with a new state or
  returns; a thrown exception is a value of \<open>json_exception + 'a\<close> around it.
\<close>

record sax_state =
  the_parser :: parser
  the_dom :: dom
  states :: "bool list" \<comment> \<open>true = array; the last element of the vector first\<close>
  skip_to_state_evaluation :: bool

datatype sax_step = Sax_continue sax_state | Sax_return bool sax_state

definition sax_fail :: "token_type \<Rightarrow> string \<Rightarrow> sax_state \<Rightarrow> json_exception + sax_step" where
  "sax_fail expected context s =
     bindr (sax_parse_error (syntax_error expected context (the_parser s)) (the_dom s))
       (\<lambda>(r, d). Inr (Sax_return r (s\<lparr>the_dom := d\<rparr>)))"

definition next_token :: "sax_state \<Rightarrow> sax_state" where
  "next_token s = s\<lparr>the_parser := get_token (the_parser s)\<rparr>"

abbreviation token :: "sax_state \<Rightarrow> token_type" where
  "token s \<equiv> last_token (the_parser s)"

definition sax_event :: "(dom \<Rightarrow> dom) \<Rightarrow> sax_state \<Rightarrow> sax_state" where
  "sax_event f s = s\<lparr>the_dom := f (the_dom s)\<rparr>"

text \<open>
  A key that has just been read, the name separator and the first token of the value: shared
  by the two places that parse a member of an object.
\<close>

definition sax_key :: "(sax_state \<Rightarrow> sax_state) \<Rightarrow> sax_state \<Rightarrow> json_exception + sax_step" where
  "sax_key enter s =
     (if token s \<noteq> tok_value_string then sax_fail tok_value_string ''object key'' s
      else
        let s1 = next_token (sax_event (key (token_buffer (m_lexer (the_parser s)))) s)
        in if token s1 \<noteq> tok_name_separator
           then sax_fail tok_name_separator ''object separator'' s1
           else Inr (Sax_continue (next_token (enter s1))))"

text \<open>After a complete value, inside an array.\<close>

definition sax_after_array_value :: "sax_state \<Rightarrow> json_exception + sax_step" where
  "sax_after_array_value s =
     (let s1 = next_token s
      in if token s1 = tok_value_separator then Inr (Sax_continue (next_token s1))
         else if token s1 = tok_end_array
         then Inr (Sax_continue ((sax_event end_array s1)\<lparr>states := tl (states s1),
                                 skip_to_state_evaluation := True\<rparr>))
         else sax_fail tok_end_array ''array'' s1)"

text \<open>After a complete value, inside an object.\<close>

definition sax_after_object_value :: "sax_state \<Rightarrow> json_exception + sax_step" where
  "sax_after_object_value s =
     (let s1 = next_token s
      in if token s1 = tok_value_separator then sax_key id (next_token s1)
         else if token s1 = tok_end_object
         then Inr (Sax_continue ((sax_event end_object s1)\<lparr>states := tl (states s1),
                                 skip_to_state_evaluation := True\<rparr>))
         else sax_fail tok_end_object ''object'' s1)"

definition sax_evaluate_state :: "sax_state \<Rightarrow> json_exception + sax_step" where
  "sax_evaluate_state s =
     (case states s of
        [] \<Rightarrow> Inr (Sax_return True s)
      | True # _ \<Rightarrow> sax_after_array_value s
      | False # _ \<Rightarrow> sax_after_object_value s)"

definition sax_begin_object :: "sax_state \<Rightarrow> json_exception + sax_step" where
  "sax_begin_object s =
     (let s1 = next_token (sax_event start_object s)
      in if token s1 = tok_end_object then sax_evaluate_state (sax_event end_object s1)
         else sax_key (\<lambda>s. s\<lparr>states := False # states s\<rparr>) s1)"

definition sax_begin_array :: "sax_state \<Rightarrow> json_exception + sax_step" where
  "sax_begin_array s =
     (let s1 = next_token (sax_event start_array s)
      in if token s1 = tok_end_array then sax_evaluate_state (sax_event end_array s1)
         else Inr (Sax_continue (s1\<lparr>states := True # states s1\<rparr>)))"

definition sax_value_float :: "sax_state \<Rightarrow> json_exception + sax_step" where
  "sax_value_float s =
     (let lx = m_lexer (the_parser s); res = value_float lx
      in if \<not> isfinite res
         then bindr (sax_parse_error (out_of_range_create 406
                      (''number overflow parsing '' @ quoted (get_token_string lx))) (the_dom s))
                (\<lambda>(r, d). Inr (Sax_return r (s\<lparr>the_dom := d\<rparr>)))
         else sax_evaluate_state (sax_event (sax_scalar (Number_float res)) s))"

text \<open>The \<open>switch\<close> over the last token.\<close>

definition sax_value :: "sax_state \<Rightarrow> json_exception + sax_step" where
  "sax_value s =
     (let lx = m_lexer (the_parser s);
          scalar = (\<lambda>v. sax_evaluate_state (sax_event (sax_scalar v) s))
      in case token s of
           tok_begin_object \<Rightarrow> sax_begin_object s
         | tok_begin_array \<Rightarrow> sax_begin_array s
         | tok_value_float \<Rightarrow> sax_value_float s
         | tok_literal_false \<Rightarrow> scalar (Boolean False)
         | tok_literal_null \<Rightarrow> scalar Null
         | tok_literal_true \<Rightarrow> scalar (Boolean True)
         | tok_value_integer \<Rightarrow> scalar (Number_integer (value_integer lx))
         | tok_value_string \<Rightarrow> scalar (String (token_buffer lx))
         | tok_value_unsigned \<Rightarrow> scalar (Number_unsigned (value_unsigned lx))
         | tok_parse_error \<Rightarrow> sax_fail tok_uninitialized ''value'' s
         | _ \<Rightarrow> sax_fail tok_literal_or_value ''value'' s)"

definition sax_iteration :: "sax_state \<Rightarrow> json_exception + sax_step" where
  "sax_iteration s =
     (if \<not> skip_to_state_evaluation s then sax_value s
      else sax_evaluate_state (s\<lparr>skip_to_state_evaluation := False\<rparr>))"

section \<open>Termination of the loop\<close>

abbreviation input_left :: "sax_state \<Rightarrow> nat" where
  "input_left s \<equiv> pending (m_lexer (the_parser s))"

definition stopping :: "token_type \<Rightarrow> bool" where
  "stopping t \<longleftrightarrow> t = tok_end_of_input \<or> t = tok_parse_error"

definition sax_measure :: "sax_state \<Rightarrow> nat" where
  "sax_measure s = input_left s + (if \<not> skip_to_state_evaluation s \<and> stopping (token s) then 0 else 1)"

lemma sax_event_simps [simp]:
  "the_parser (sax_event f s) = the_parser s" "states (sax_event f s) = states s"
  "skip_to_state_evaluation (sax_event f s) = skip_to_state_evaluation s"
  by (simp_all add: sax_event_def)

lemma next_token_simps [simp]:
  "the_dom (next_token s) = the_dom s" "states (next_token s) = states s"
  "skip_to_state_evaluation (next_token s) = skip_to_state_evaluation s"
  by (simp_all add: next_token_def)

lemma next_token_le: "input_left (next_token s) \<le> input_left s"
  using scan_pending_le [of "m_lexer (the_parser s)"]
  by (auto simp: next_token_def get_token_def split: prod.splits)

lemma next_token_less: "\<not> stopping (token (next_token s)) \<Longrightarrow> input_left (next_token s) < input_left s"
  using scan_pending [of "m_lexer (the_parser s)"]
  by (simp add: next_token_def get_token_def stopping_def split: prod.splits)

lemma next_token_measure:
  "\<not> skip_to_state_evaluation s \<Longrightarrow> sax_measure (next_token s) \<le> input_left s"
  using next_token_le [of s] next_token_less [of s] by (auto simp: sax_measure_def)

lemma sax_fail_stops [simp]: "sax_fail t c s \<noteq> Inr (Sax_continue s')"
  by (auto simp: sax_fail_def sax_parse_error_def bindr_eq_Inr Let_def split: if_splits)

lemma sax_key_measure:
  assumes "sax_key enter s = Inr (Sax_continue s')" and "\<not> skip_to_state_evaluation s"
    and "\<And>s. the_parser (enter s) = the_parser s"
    and "\<And>s. skip_to_state_evaluation (enter s) = skip_to_state_evaluation s"
  shows "sax_measure s' \<le> input_left s"
proof -
  let ?s = "sax_event (key (token_buffer (m_lexer (the_parser s)))) s"
  from assms(1) have s': "s' = next_token (enter (next_token ?s))"
    by (auto simp: sax_key_def Let_def split: if_splits)
  have "sax_measure s' \<le> input_left (enter (next_token ?s))"
    unfolding s' by (rule next_token_measure) (simp add: assms)
  also have "\<dots> \<le> input_left s" using next_token_le [of ?s] assms(3) by simp
  finally show ?thesis .
qed

lemma after_array_measure:
  assumes "sax_after_array_value s = Inr (Sax_continue s')" and "\<not> skip_to_state_evaluation s"
  shows "sax_measure s' \<le> input_left s"
  using assms next_token_le [of s] next_token_less [of s] next_token_measure [of "next_token s"]
  by (auto simp: sax_after_array_value_def Let_def sax_measure_def stopping_def split: if_splits)

lemma after_object_measure:
  assumes "sax_after_object_value s = Inr (Sax_continue s')" and "\<not> skip_to_state_evaluation s"
  shows "sax_measure s' \<le> input_left s"
proof -
  have "sax_key id (next_token (next_token s)) = Inr (Sax_continue s') \<Longrightarrow> sax_measure s' \<le> input_left s"
    using sax_key_measure [of id "next_token (next_token s)" s'] assms(2)
      next_token_le [of s] next_token_le [of "next_token s"] by simp
  then show ?thesis
    using assms next_token_less [of s]
    by (auto simp: sax_after_object_value_def Let_def sax_measure_def stopping_def split: if_splits)
qed

lemma evaluate_state_measure:
  assumes "sax_evaluate_state s = Inr (Sax_continue s')" and "\<not> skip_to_state_evaluation s"
  shows "sax_measure s' \<le> input_left s"
  using assms after_array_measure after_object_measure
  by (auto simp: sax_evaluate_state_def split: list.splits bool.splits)

lemma begin_object_measure:
  assumes "sax_begin_object s = Inr (Sax_continue s')" and "\<not> skip_to_state_evaluation s"
  shows "sax_measure s' \<le> input_left s"
proof -
  let ?s = "next_token (sax_event start_object s)"
  have le: "input_left ?s \<le> input_left s" using next_token_le [of "sax_event start_object s"] by simp
  have "sax_key (\<lambda>s. s\<lparr>states := False # states s\<rparr>) ?s = Inr (Sax_continue s') \<Longrightarrow> sax_measure s' \<le> input_left s"
    using sax_key_measure [of "\<lambda>s. s\<lparr>states := False # states s\<rparr>" ?s s'] assms(2) le by simp
  then show ?thesis
    using assms le evaluate_state_measure [of "sax_event end_object ?s" s']
    by (auto simp: sax_begin_object_def Let_def split: if_splits)
qed

lemma begin_array_measure:
  assumes "sax_begin_array s = Inr (Sax_continue s')" and "\<not> skip_to_state_evaluation s"
  shows "sax_measure s' \<le> input_left s"
proof -
  let ?s = "next_token (sax_event start_array s)"
  have le: "input_left ?s \<le> input_left s" using next_token_le [of "sax_event start_array s"] by simp
  show ?thesis
    using assms le evaluate_state_measure [of "sax_event end_array ?s" s']
      next_token_measure [of "sax_event start_array s"]
    by (auto simp: sax_begin_array_def Let_def sax_measure_def split: if_splits)
qed

lemma sax_value_measure:
  assumes "sax_value s = Inr (Sax_continue s')" and "\<not> skip_to_state_evaluation s"
  shows "\<not> stopping (token s) \<and> sax_measure s' \<le> input_left s"
proof -
  have ev: "sax_evaluate_state (sax_event f s) = Inr (Sax_continue s') \<Longrightarrow> sax_measure s' \<le> input_left s"
    for f using evaluate_state_measure [of "sax_event f s" s'] assms(2) by simp
  have fl: "sax_value_float s = Inr (Sax_continue s') \<Longrightarrow> sax_measure s' \<le> input_left s"
    using ev by (auto simp: sax_value_float_def sax_parse_error_def Let_def bindr_eq_Inr split: if_splits)
  show ?thesis
    using assms begin_object_measure begin_array_measure ev fl
    by (auto simp: sax_value_def stopping_def Let_def split: token_type.splits)
qed

lemma sax_iteration_measure:
  assumes "sax_iteration s = Inr (Sax_continue s')"
  shows "sax_measure s' < sax_measure s"
proof (cases "skip_to_state_evaluation s")
  case True
  with assms evaluate_state_measure [of "s\<lparr>skip_to_state_evaluation := False\<rparr>" s'] show ?thesis
    by (simp add: sax_iteration_def sax_measure_def)
next
  case False
  with assms sax_value_measure [of s s'] show ?thesis
    by (simp add: sax_iteration_def sax_measure_def)
qed

function sax_parse_internal :: "sax_state \<Rightarrow> json_exception + bool \<times> sax_state" where
  "sax_parse_internal s =
     bindr (sax_iteration s) (\<lambda>r. case r of
       Sax_continue s' \<Rightarrow> sax_parse_internal s'
     | Sax_return b s' \<Rightarrow> Inr (b, s'))"
  by pat_completeness auto
termination
  by (relation "measure sax_measure") (auto simp: sax_iteration_measure)

declare sax_parse_internal.simps [simp del]

section \<open>parse\<close>

text \<open>
  \<open>parser::parse\<close> without a callback: run the loop, in strict mode require the end of the
  input, and give a discarded value when an error was recorded.
\<close>

definition parse :: "bool \<Rightarrow> bool \<Rightarrow> parser \<Rightarrow> json_exception + json" where
  "parse strict allow p =
     bindr (sax_parse_internal \<lparr>the_parser = p, the_dom = dom_init Null allow, states = [],
              skip_to_state_evaluation = False\<rparr>) (\<lambda>(_, s).
     bindr (if strict then
              (let s1 = next_token s
               in if token s1 \<noteq> tok_end_of_input
                  then bindr (sax_parse_error (syntax_error tok_end_of_input ''value'' (the_parser s1)) (the_dom s1))
                         (\<lambda>(_, d). Inr d)
                  else Inr (the_dom s1))
            else Inr (the_dom s)) (\<lambda>d.
     Inr (if errored d then Discarded else root d)))"

text \<open>\<open>basic_json::parse\<close> with its default arguments.\<close>

definition json_parse :: "string \<Rightarrow> json_exception + json" where
  "json_parse input = parse True True (parser_init input)"

end
