(* ===== verification/Json_Roundtrip.thy ===== *)
theory Json_Roundtrip
  imports Json_Tokens Json_Parser
begin

text \<open>
  The parser run on the text of a value rebuilds the value. The builder's pointers are paths; a
  \<open>hole\<close> is a tree with a place for a value at the end of a path, and the run fills the hole.
  The second half is the invariant of the builder, by which every parsed value is well-formed,
  and the errors and the running time of the parser on arbitrary input.
\<close>

section \<open>Positions in a growing tree\<close>

definition hole :: "(json \<Rightarrow> json) \<Rightarrow> path \<Rightarrow> bool" where
  "hole R p \<longleftrightarrow> (\<forall>w. follow p (R w) = Some w) \<and> (\<forall>f w. modify p f (R w) = R (f w))"

lemma follow_append: "follow (p @ q) j = (case follow p j of Some v \<Rightarrow> follow q v | None \<Rightarrow> None)"
  by (induction p j rule: follow.induct) (auto split: option.splits)

lemma modify_append: "modify (p @ q) f j = modify p (modify q f) j"
  by (induction p "modify q f" j rule: modify.induct) (auto split: option.splits)

lemma hole_root: "hole (\<lambda>w. w) []"
  by (simp add: hole_def)

lemma hole_element: "hole R p \<Longrightarrow> hole (\<lambda>w. R (Array (xs @ [w]))) (p @ [Index (length xs)])"
  by (simp add: hole_def follow_append modify_append)

lemma map_of_last: "\<forall>k' \<in> fst ` set m. k' < k \<Longrightarrow> map_of (m @ [(k, v)]) k = Some v" for k :: "'k::linorder"
  by (induction m) auto

lemma map_assign_replace: "\<forall>k' \<in> fst ` set m. k' < k \<Longrightarrow> map_assign k v (m @ [(k, w)]) = m @ [(k, v)]"
  by (induction m) auto

lemma hole_member:
  assumes "hole R p" and "\<forall>k' \<in> fst ` set m. k' < k"
  shows "hole (\<lambda>w. R (Object (m @ [(k, w)]))) (p @ [Key k])"
  using assms map_of_last [OF assms(2)] map_assign_replace [OF assms(2)]
  by (simp add: hole_def follow_append modify_append del: map_of_append)

definition slot_of :: "dom \<Rightarrow> (json \<Rightarrow> json) \<Rightarrow> path \<Rightarrow> bool" where
  "slot_of d R p \<longleftrightarrow> hole R p \<and> (\<forall>v. handle_value v d = (p, d\<lparr>root := R v\<rparr>))"

lemma slot_root: "ref_stack d = [] \<Longrightarrow> slot_of d (\<lambda>w. w) []"
  by (simp add: slot_of_def hole_root handle_value_def)

lemma slot_element:
  assumes "ref_stack d = p # ps" and "root d = R (Array xs)" and "hole R p"
  shows "slot_of d (\<lambda>w. R (Array (xs @ [w]))) (p @ [Index (length xs)])"
  using assms hole_element [OF assms(3)] by (simp add: slot_of_def handle_value_def hole_def)

lemma slot_member:
  assumes "ref_stack d = p # ps" and "root d = R (Object (m @ [(k, w)]))" and "hole R p"
    and "object_element d = p @ [Key k]" and "\<forall>k' \<in> fst ` set m. k' < k"
  shows "slot_of d (\<lambda>w. R (Object (m @ [(k, w)]))) (p @ [Key k])"
  using assms hole_member [OF assms(3,5)] by (simp add: slot_of_def handle_value_def hole_def)

section \<open>Runs of the parser\<close>

definition run :: "json_exception + sax_step \<Rightarrow> json_exception + bool \<times> sax_state" where
  "run r = bindr r (\<lambda>r. case r of Sax_continue s \<Rightarrow> sax_parse_internal s | Sax_return b s \<Rightarrow> Inr (b, s))"

lemma parse_run: "sax_parse_internal s = run (sax_iteration s)"
  by (subst sax_parse_internal.simps) (simp add: run_def)

lemma run_continue [simp]: "run (Inr (Sax_continue s)) = sax_parse_internal s"
  by (simp add: run_def)

abbreviation lexer_of :: "sax_state \<Rightarrow> lexer" where
  "lexer_of s \<equiv> m_lexer (the_parser s)"

definition at_state :: "sax_state \<Rightarrow> string \<Rightarrow> bool list \<Rightarrow> path list \<Rightarrow> json \<Rightarrow> bool" where
  "at_state s cs sts ps j \<longleftrightarrow> reads (lexer_of s) cs \<and> states s = sts \<and> \<not> skip_to_state_evaluation s
     \<and> ref_stack (the_dom s) = ps \<and> root (the_dom s) = j \<and> \<not> errored (the_dom s)"

definition arrives ::
    "json_exception + bool \<times> sax_state \<Rightarrow> string \<Rightarrow> bool list \<Rightarrow> path list \<Rightarrow> json \<Rightarrow> bool" where
  "arrives r cs sts ps j \<longleftrightarrow> (\<exists>s. r = run (sax_evaluate_state s) \<and> at_state s cs sts ps j)"

lemma arrivesI: "at_state s cs sts ps j \<Longrightarrow> arrives (run (sax_evaluate_state s)) cs sts ps j"
  by (auto simp: arrives_def)

lemma next_token_lexer: "lexer_of (next_token s) = snd (scan (lexer_of s))" "token (next_token s) = fst (scan (lexer_of s))"
  by (simp_all add: next_token_def get_token_def split: prod.splits)

lemma next_token_at:
  assumes "token_reads (lexer_of s) t cs" and "at_state s cs' sts ps j"
  shows "token (next_token s) = t" "at_state (next_token s) cs sts ps j"
  using assms by (simp_all add: token_reads_def at_state_def next_token_lexer)

lemma next_token_char:
  assumes "at_state s (c # cs) sts ps j"
    and "(c, t) \<in> {(CHR ''['', tok_begin_array), (CHR '']'', tok_end_array), (CHR ''{'', tok_begin_object),
       (CHR ''}'', tok_end_object), (CHR '':'', tok_name_separator), (CHR '','', tok_value_separator)}"
  shows "token (next_token s) = t" "at_state (next_token s) cs sts ps j"
proof -
  have "token_reads (lexer_of s) t cs"
    using scan_structural [OF _ assms(2)] assms(1) by (simp add: at_state_def)
  from next_token_at [OF this assms(1)]
  show "token (next_token s) = t" "at_state (next_token s) cs sts ps j" by auto
qed

lemma scalar_arrives:
  assumes "at_state s0 text sts ps j0" and "slot_of (the_dom s0) R p"
    and t: "token_reads (lexer_of s0) t cs"
    and v: "sax_value (next_token s0) = sax_evaluate_state (sax_event (sax_scalar v) (next_token s0))"
  shows "arrives (sax_parse_internal (next_token s0)) cs sts ps (R v)"
proof -
  note n = next_token_at [OF t assms(1)]
  have "at_state (sax_event (sax_scalar v) (next_token s0)) cs sts ps (R v)"
    using n(2) assms(2) by (simp add: at_state_def slot_of_def) (simp add: sax_event_def sax_scalar_def)
  moreover have "sax_iteration (next_token s0) = sax_evaluate_state (sax_event (sax_scalar v) (next_token s0))"
    using n(2) v by (simp add: sax_iteration_def at_state_def)
  ultimately show ?thesis by (simp add: parse_run arrivesI)
qed

fun parsable :: "json \<Rightarrow> bool"
  and parsable_members :: "(string \<times> json) list \<Rightarrow> bool"
  and parsable_elements :: "json list \<Rightarrow> bool" where
  "parsable (Object m) = (map_ok m \<and> parsable_members m)"
| "parsable (Array xs) = parsable_elements xs"
| "parsable (String s) = utf8_valid s"
| "parsable (Number_integer n) = (sint n < 0 \<and> sint n \<noteq> - (2 ^ 63))"
| "parsable (Number_float x) = False"
| "parsable Discarded = False"
| "parsable _ = True"
| "parsable_members [] = True"
| "parsable_members ((k, v) # m) = (utf8_valid k \<and> parsable v \<and> parsable_members m)"
| "parsable_elements [] = True"
| "parsable_elements (v # xs) = (parsable v \<and> parsable_elements xs)"

lemma number_end_structural [simp]:
  "number_end (CHR '','' # cs)" "number_end (CHR '']'' # cs)" "number_end (CHR ''}'' # cs)" "number_end []"
  by (simp_all add: number_end_def is_digit_def)

text \<open>Closing a container.\<close>

lemma close_array:
  assumes "at_state s (CHR '']'' # cs) (True # sts) (p # ps) j"
  shows "arrives (run (sax_evaluate_state s)) cs sts ps j"
proof -
  note n = next_token_char [OF assms, of tok_end_array, simplified]
  let ?s = "(sax_event end_array (next_token s))\<lparr>states := sts, skip_to_state_evaluation := True\<rparr>"
  have "sax_evaluate_state s = Inr (Sax_continue ?s)"
    using assms n by (simp add: sax_evaluate_state_def sax_after_array_value_def at_state_def)
  then have "run (sax_evaluate_state s) = run (sax_evaluate_state (?s\<lparr>skip_to_state_evaluation := False\<rparr>))"
    by (simp add: parse_run sax_iteration_def)
  moreover have "at_state (?s\<lparr>skip_to_state_evaluation := False\<rparr>) cs sts ps j"
    using n(2) by (simp add: at_state_def) (simp add: sax_event_def end_array_def)
  ultimately show ?thesis by (metis arrivesI)
qed

lemma close_object:
  assumes "at_state s (CHR ''}'' # cs) (False # sts) (p # ps) j"
  shows "arrives (run (sax_evaluate_state s)) cs sts ps j"
proof -
  note n = next_token_char [OF assms, of tok_end_object, simplified]
  let ?s = "(sax_event end_object (next_token s))\<lparr>states := sts, skip_to_state_evaluation := True\<rparr>"
  have "sax_evaluate_state s = Inr (Sax_continue ?s)"
    using assms n by (simp add: sax_evaluate_state_def sax_after_object_value_def at_state_def)
  then have "run (sax_evaluate_state s) = run (sax_evaluate_state (?s\<lparr>skip_to_state_evaluation := False\<rparr>))"
    by (simp add: parse_run sax_iteration_def)
  moreover have "at_state (?s\<lparr>skip_to_state_evaluation := False\<rparr>) cs sts ps j"
    using n(2) by (simp add: at_state_def) (simp add: sax_event_def end_object_def)
  ultimately show ?thesis by (metis arrivesI)
qed

text \<open>A separator after a value.\<close>

lemma array_separator:
  assumes "at_state s (CHR '','' # cs) (True # sts) ps j"
  shows "\<exists>s1. run (sax_evaluate_state s) = sax_parse_internal (next_token s1) \<and> at_state s1 cs (True # sts) ps j"
proof -
  note n = next_token_char [OF assms, of tok_value_separator, simplified]
  have "sax_evaluate_state s = Inr (Sax_continue (next_token (next_token s)))"
    using assms n by (simp add: sax_evaluate_state_def sax_after_array_value_def at_state_def)
  with n(2) show ?thesis by (metis run_continue)
qed

lemma object_separator:
  assumes "at_state s (CHR '','' # cs) (False # sts) ps j"
  shows "\<exists>s1. run (sax_evaluate_state s) = run (sax_key id (next_token s1)) \<and> at_state s1 cs (False # sts) ps j"
proof -
  note n = next_token_char [OF assms, of tok_value_separator, simplified]
  have "sax_evaluate_state s = sax_key id (next_token (next_token s))"
    using assms n by (simp add: sax_evaluate_state_def sax_after_object_value_def at_state_def)
  with n(2) show ?thesis by metis
qed

lemma member_key:
  assumes s0: "at_state s0 (quote_text k @ CHR '':'' # cs) sts0 (p # ps) (R (Object n))"
    and k: "utf8_valid k" "\<forall>k' \<in> fst ` set n. k' < k" and R: "hole R p"
    and enter: "\<And>s. enter s = s\<lparr>states := f (states s)\<rparr>"
  shows "\<exists>s1. run (sax_key enter (next_token s0)) = sax_parse_internal (next_token s1)
     \<and> at_state s1 cs (f sts0) (p # ps) (R (Object (n @ [(k, Null)])))
     \<and> slot_of (the_dom s1) (\<lambda>w. R (Object (n @ [(k, w)]))) (p @ [Key k])"
proof -
  have rd: "reads (lexer_of s0) (quote_text k @ CHR '':'' # cs)" using s0 by (simp add: at_state_def)
  note q = scan_quoted [OF rd k(1)]
  note n = next_token_at [OF conjunct1 [OF q] s0]
  let ?d = "key k (the_dom (next_token s0))" and ?s = "sax_event (key k) (next_token s0)"
  have "map_of n k = None" using k(2) by (auto simp: map_of_eq_None_iff)
  then have emp: "map_emplace k Null n = n @ [(k, Null)]" by (simp add: map_emplace_def map_assign_last [OF k(2)])
  have d: "the_dom ?s = ?d" by (simp add: sax_event_def)
  have d': "ref_stack ?d = p # ps" "root ?d = R (Object (n @ [(k, Null)]))" "object_element ?d = p @ [Key k]"
    "\<not> errored ?d"
    using n(2) R emp by (simp_all add: key_def at_state_def hole_def)
  have "at_state ?s (CHR '':'' # cs) sts0 (p # ps) (R (Object (n @ [(k, Null)])))"
    using n(2) d' by (simp add: at_state_def d)
  note m = next_token_char [OF this, of tok_name_separator, simplified]
  have "token_buffer (lexer_of (next_token s0)) = k" using q by (simp add: next_token_lexer)
  then have "sax_key enter (next_token s0) = Inr (Sax_continue (next_token (enter (next_token ?s))))"
    using n(1) m(1) by (simp add: sax_key_def)
  moreover have "at_state (enter (next_token ?s)) cs (f sts0) (p # ps) (R (Object (n @ [(k, Null)])))"
    using m(2) by (simp add: enter at_state_def)
  moreover have "slot_of (the_dom (enter (next_token ?s))) (\<lambda>w. R (Object (n @ [(k, w)]))) (p @ [Key k])"
    using slot_member [OF d'(1,2) R d'(3) k(2)] by (simp add: enter d)
  ultimately show ?thesis by (metis run_continue)
qed

lemma map_ok_middle: "map_ok (n @ (k, v) # m) \<Longrightarrow> \<forall>k' \<in> fst ` set n. k' < k"
  by (auto simp: map_ok_def sorted_wrt_append)

lemma open_container:
  assumes "at_state s0 text sts ps j0" and "slot_of (the_dom s0) R p"
    and t: "token_reads (lexer_of s0) t cs"
  shows "at_state (sax_event start_array (next_token s0)) cs sts (p # ps) (R (Array []))"
    "at_state (sax_event start_object (next_token s0)) cs sts (p # ps) (R (Object []))"
  using next_token_at [OF t assms(1)] assms(2)
  by (simp_all add: at_state_def slot_of_def) (simp_all add: sax_event_def start_array_def start_object_def)

lemma empty_array:
  assumes "at_state s0 (''[]'' @ cs) sts ps j0" and "slot_of (the_dom s0) R p"
  shows "arrives (sax_parse_internal (next_token s0)) cs sts ps (R (Array []))"
proof -
  have t: "token_reads (lexer_of s0) tok_begin_array (CHR '']'' # cs)"
    using assms(1) scan_structural [of "lexer_of s0" "CHR ''[''"] by (simp add: at_state_def)
  note n = next_token_at [OF t assms(1)] and o = open_container(1) [OF assms t]
  let ?s = "next_token (sax_event start_array (next_token s0))"
  note c = next_token_char [OF o, of tok_end_array, simplified]
  have "sax_iteration (next_token s0) = sax_evaluate_state (sax_event end_array ?s)"
    using n c by (simp add: sax_iteration_def sax_value_def sax_begin_array_def at_state_def)
  moreover have "at_state (sax_event end_array ?s) cs sts ps (R (Array []))"
    using c(2) by (simp add: at_state_def) (simp add: sax_event_def end_array_def)
  ultimately show ?thesis by (simp add: parse_run arrivesI)
qed

lemma empty_object:
  assumes "at_state s0 (''{}'' @ cs) sts ps j0" and "slot_of (the_dom s0) R p"
  shows "arrives (sax_parse_internal (next_token s0)) cs sts ps (R (Object []))"
proof -
  have t: "token_reads (lexer_of s0) tok_begin_object (CHR ''}'' # cs)"
    using assms(1) scan_structural [of "lexer_of s0" "CHR ''{''"] by (simp add: at_state_def)
  note n = next_token_at [OF t assms(1)] and o = open_container(2) [OF assms t]
  let ?s = "next_token (sax_event start_object (next_token s0))"
  note c = next_token_char [OF o, of tok_end_object, simplified]
  have "sax_iteration (next_token s0) = sax_evaluate_state (sax_event end_object ?s)"
    using n c by (simp add: sax_iteration_def sax_value_def sax_begin_object_def at_state_def)
  moreover have "at_state (sax_event end_object ?s) cs sts ps (R (Object []))"
    using c(2) by (simp add: at_state_def) (simp add: sax_event_def end_object_def)
  ultimately show ?thesis by (simp add: parse_run arrivesI)
qed

text \<open>The first token of a value is not the end of an array, that of a member not the end of an object.\<close>

lemma value_first_token:
  assumes "reads lx (json_text df j @ cs)" and "parsable j" and "number_end cs"
  shows "fst (scan lx) \<noteq> tok_end_array"
proof (cases j)
  case (String s)
  then show ?thesis using assms scan_quoted [of lx s cs] by (auto simp: token_reads_def)
next
  case (Number_unsigned n)
  then show ?thesis
    using assms scan_unsigned [of lx "unat n" cs] unsigned_less [of n, where 'a = nat] by (auto simp: token_reads_def)
next
  case (Number_integer n)
  have "- (2 ^ 63) \<le> sint n" using sint_greater_eq [of n] by simp
  then show ?thesis
    using assms scan_negative [of lx "nat \<bar>sint n\<bar>" cs] by (auto simp: Number_integer int_text_def token_reads_def)
next
  case (Array xs)
  then show ?thesis
    using assms scan_structural [of lx "CHR ''[''" _ tok_begin_array] by (auto simp: token_reads_def)
next
  case (Object m)
  then show ?thesis
    using assms scan_structural [of lx "CHR ''{''" _ tok_begin_object] by (auto simp: token_reads_def)
qed (use assms scan_literals [of lx cs] in \<open>auto simp: token_reads_def split: if_splits\<close>)

lemma enter_array:
  assumes "at_state s0 (CHR ''['' # elements_text df (v # xs) @ cs) sts ps j0" and "slot_of (the_dom s0) R p"
    and "parsable v" and "number_end cs"
  shows "\<exists>s1. sax_parse_internal (next_token s0) = sax_parse_internal (next_token s1)
     \<and> at_state s1 (elements_text df (v # xs) @ cs) (True # sts) (p # ps) (R (Array []))"
proof -
  have t: "token_reads (lexer_of s0) tok_begin_array (elements_text df (v # xs) @ cs)"
    using assms(1) scan_structural [of "lexer_of s0" "CHR ''[''"] by (simp add: at_state_def)
  note n = next_token_at [OF t assms(1)] and o = open_container(1) [OF assms(1,2) t]
  let ?s = "sax_event start_array (next_token s0)"
  let ?s1 = "?s\<lparr>states := True # states ?s\<rparr>"
  have "token (next_token ?s) \<noteq> tok_end_array"
    using value_first_token [of "lexer_of ?s" df v "(if xs = [] then [] else '','' @ elements_text df xs) @ cs"] o assms(3,4)
    by (cases xs) (simp_all add: next_token_lexer at_state_def)
  moreover have "next_token ?s1 = (next_token ?s)\<lparr>states := True # states ?s\<rparr>"
    by (simp add: next_token_def)
  ultimately have "sax_iteration (next_token s0) = Inr (Sax_continue (next_token ?s1))"
    using n by (simp add: sax_iteration_def sax_value_def sax_begin_array_def at_state_def)
  then have "sax_parse_internal (next_token s0) = sax_parse_internal (next_token ?s1)"
    by (simp add: parse_run [of "next_token s0"])
  moreover have "at_state ?s1 (elements_text df (v # xs) @ cs) (True # sts) (p # ps) (R (Array []))"
    using o by (simp add: at_state_def)
  ultimately show ?thesis by blast
qed

lemma enter_object:
  assumes "at_state s0 (CHR ''{'' # quote_text k @ cs) sts ps j0" and "slot_of (the_dom s0) R p" and "utf8_valid k"
  shows "\<exists>s1. sax_parse_internal (next_token s0) = run (sax_key (\<lambda>s. s\<lparr>states := False # states s\<rparr>) (next_token s1))
     \<and> at_state s1 (quote_text k @ cs) sts (p # ps) (R (Object []))"
proof -
  have t: "token_reads (lexer_of s0) tok_begin_object (quote_text k @ cs)"
    using assms(1) scan_structural [of "lexer_of s0" "CHR ''{''"] by (simp add: at_state_def)
  note n = next_token_at [OF t assms(1)] and o = open_container(2) [OF assms(1,2) t]
  let ?s = "sax_event start_object (next_token s0)"
  have "token (next_token ?s) = tok_value_string"
    using scan_quoted [of "lexer_of ?s" k cs] o assms(3)
    by (simp add: next_token_lexer at_state_def token_reads_def)
  then have "sax_iteration (next_token s0) = sax_key (\<lambda>s. s\<lparr>states := False # states s\<rparr>) (next_token ?s)"
    using n by (simp add: sax_iteration_def sax_value_def sax_begin_object_def at_state_def)
  then have "sax_parse_internal (next_token s0) = run (sax_key (\<lambda>s. s\<lparr>states := False # states s\<rparr>) (next_token ?s))"
    by (simp add: parse_run [of "next_token s0"])
  with o show ?thesis by blast
qed

text \<open>
  The induction over the value: a run that starts at the first token of the text of a value
  arrives at the state evaluation with the value in its slot. The steps for a member and for an
  element take the claims for the first value and for the rest as premises.
\<close>

lemma object_arrives:
  assumes s0: "at_state s0 (json_text df (Object m) @ cs) sts ps j0" and sl: "slot_of (the_dom s0) R p"
    and m: "parsable (Object m)"
    and members: "\<And>s0. at_state s0 (members_text df m @ CHR ''}'' # cs) sts (p # ps) (R (Object [])) \<Longrightarrow> m \<noteq> [] \<Longrightarrow>
      arrives (run (sax_key (\<lambda>s. s\<lparr>states := False # states s\<rparr>) (next_token s0))) cs sts ps (R (Object m))"
  shows "arrives (sax_parse_internal (next_token s0)) cs sts ps (R (Object m))"
proof (cases m)
  case Nil
  with s0 sl empty_object show ?thesis by simp
next
  case (Cons kv m')
  obtain k v where kv: "kv = (k, v)" by (cases kv)
  with m Cons have "utf8_valid k" by simp
  have "\<exists>cs'. members_text df m @ CHR ''}'' # cs = quote_text k @ cs'" by (simp add: Cons kv)
  then obtain cs' where cs': "members_text df m @ CHR ''}'' # cs = quote_text k @ cs'" ..
  from s0 have "at_state s0 (CHR ''{'' # quote_text k @ cs') sts ps j0" using cs' by simp
  from enter_object [OF this sl \<open>utf8_valid k\<close>] obtain s1 where
    "sax_parse_internal (next_token s0) = run (sax_key (\<lambda>s. s\<lparr>states := False # states s\<rparr>) (next_token s1))"
    "at_state s1 (members_text df m @ CHR ''}'' # cs) sts (p # ps) (R (Object []))"
    unfolding cs' by blast
  with members [of s1] Cons show ?thesis by simp
qed

lemma array_arrives:
  assumes s0: "at_state s0 (json_text df (Array xs) @ cs) sts ps j0" and sl: "slot_of (the_dom s0) R p"
    and xs: "parsable (Array xs)"
    and elements: "\<And>s0. at_state s0 (elements_text df xs @ CHR '']'' # cs) (True # sts) (p # ps) (R (Array [])) \<Longrightarrow> xs \<noteq> [] \<Longrightarrow>
      arrives (sax_parse_internal (next_token s0)) cs sts ps (R (Array xs))"
  shows "arrives (sax_parse_internal (next_token s0)) cs sts ps (R (Array xs))"
proof (cases xs)
  case Nil
  with s0 sl empty_array show ?thesis by simp
next
  case (Cons v vs)
  with s0 have "at_state s0 (CHR ''['' # elements_text df (v # vs) @ CHR '']'' # cs) sts ps j0" by simp
  from enter_array [OF this sl] xs Cons obtain s1 where
    "sax_parse_internal (next_token s0) = sax_parse_internal (next_token s1)"
    "at_state s1 (elements_text df xs @ CHR '']'' # cs) (True # sts) (p # ps) (R (Array []))"
    by auto
  with elements [of s1] Cons show ?thesis by simp
qed

lemma member_arrives:
  assumes s0: "at_state s0 (members_text df ((k, v) # m) @ CHR ''}'' # cs) sts0 (p # ps) (R (Object n))"
    and R: "hole R p" and ok: "map_ok (n @ (k, v) # m)" and k: "utf8_valid k"
    and enter: "\<And>s. enter s = s\<lparr>states := f (states s)\<rparr>" and f: "f sts0 = False # sts"
    and first: "\<And>s0 cs j0 R p. at_state s0 (json_text df v @ cs) (False # sts) ps' j0 \<Longrightarrow> slot_of (the_dom s0) R p \<Longrightarrow>
      number_end cs \<Longrightarrow> arrives (sax_parse_internal (next_token s0)) cs (False # sts) ps' (R v)"
    and rest: "\<And>s0. m \<noteq> [] \<Longrightarrow> at_state s0 (members_text df m @ CHR ''}'' # cs) (False # sts) (p # ps) (R (Object (n @ [(k, v)]))) \<Longrightarrow>
      arrives (run (sax_key id (next_token s0))) cs sts ps (R (Object ((n @ [(k, v)]) @ m)))"
    and ps': "ps' = p # ps"
  shows "arrives (run (sax_key enter (next_token s0))) cs sts ps (R (Object (n @ (k, v) # m)))"
proof -
  let ?tail = "(if m = [] then [] else '','' @ members_text df m) @ CHR ''}'' # cs"
  have key: "\<forall>k' \<in> fst ` set n. k' < k" using ok by (rule map_ok_middle)
  from s0 have "at_state s0 (quote_text k @ CHR '':'' # json_text df v @ ?tail) sts0 (p # ps) (R (Object n))" by simp
  from member_key [OF this k key R enter] f obtain s1 where s1:
    "run (sax_key enter (next_token s0)) = sax_parse_internal (next_token s1)"
    "at_state s1 (json_text df v @ ?tail) (False # sts) (p # ps) (R (Object (n @ [(k, Null)])))"
    "slot_of (the_dom s1) (\<lambda>w. R (Object (n @ [(k, w)]))) (p @ [Key k])"
    by auto
  from first [OF s1(2) [folded ps'] s1(3)] obtain s2 where
    s2: "sax_parse_internal (next_token s1) = run (sax_evaluate_state s2)"
    "at_state s2 ?tail (False # sts) (p # ps) (R (Object (n @ [(k, v)])))"
    by (cases "m = []") (auto simp: arrives_def ps')
  show ?thesis
  proof (cases "m = []")
    case True
    with s2(2) close_object [of s2 cs sts p ps] show ?thesis by (simp add: s1(1) s2(1))
  next
    case False
    with s2(2) obtain s3 where "run (sax_evaluate_state s2) = run (sax_key id (next_token s3))"
      "at_state s3 (members_text df m @ CHR ''}'' # cs) (False # sts) (p # ps) (R (Object (n @ [(k, v)])))"
      using object_separator [of s2 "members_text df m @ CHR ''}'' # cs" sts "p # ps"] by auto
    with rest [OF False, of s3] show ?thesis by (simp add: s1(1) s2(1))
  qed
qed

lemma element_arrives:
  assumes s0: "at_state s0 (elements_text df (v # xs) @ CHR '']'' # cs) (True # sts) (p # ps) (R (Array ys))"
    and R: "hole R p"
    and first: "\<And>cs R p'. at_state s0 (json_text df v @ cs) (True # sts) (p # ps) j0 \<Longrightarrow> slot_of (the_dom s0) R p' \<Longrightarrow>
      number_end cs \<Longrightarrow> arrives (sax_parse_internal (next_token s0)) cs (True # sts) (p # ps) (R v)"
    and rest: "\<And>s0. xs \<noteq> [] \<Longrightarrow> at_state s0 (elements_text df xs @ CHR '']'' # cs) (True # sts) (p # ps) (R (Array (ys @ [v]))) \<Longrightarrow>
      arrives (sax_parse_internal (next_token s0)) cs sts ps (R (Array ((ys @ [v]) @ xs)))"
    and j0: "j0 = R (Array ys)"
  shows "arrives (sax_parse_internal (next_token s0)) cs sts ps (R (Array (ys @ v # xs)))"
proof -
  let ?tail = "(if xs = [] then [] else '','' @ elements_text df xs) @ CHR '']'' # cs"
  from s0 have a: "at_state s0 (json_text df v @ ?tail) (True # sts) (p # ps) j0" by (simp add: j0)
  then have sl: "slot_of (the_dom s0) (\<lambda>w. R (Array (ys @ [w]))) (p @ [Index (length ys)])"
    using slot_element [OF _ _ R] by (simp add: at_state_def j0)
  from first [OF a sl] obtain s2 where s2: "sax_parse_internal (next_token s0) = run (sax_evaluate_state s2)"
    "at_state s2 ?tail (True # sts) (p # ps) (R (Array (ys @ [v])))"
    by (cases "xs = []") (auto simp: arrives_def)
  show ?thesis
  proof (cases "xs = []")
    case True
    with s2(2) close_array [of s2 cs sts p ps] show ?thesis by (simp add: s2(1))
  next
    case False
    with s2(2) obtain s3 where "run (sax_evaluate_state s2) = sax_parse_internal (next_token s3)"
      "at_state s3 (elements_text df xs @ CHR '']'' # cs) (True # sts) (p # ps) (R (Array (ys @ [v])))"
      using array_separator [of s2 "elements_text df xs @ CHR '']'' # cs" sts "p # ps"] by auto
    with rest [OF False, of s3] show ?thesis by (simp add: s2(1))
  qed
qed

text \<open>The tokens that are values on their own.\<close>

lemma scalar_text_arrives:
  assumes "at_state s0 (json_text df j @ cs) sts ps j0" and "slot_of (the_dom s0) R p" and "number_end cs"
    and "parsable j" and "\<And>m. j \<noteq> Object m" and "\<And>xs. j \<noteq> Array xs"
  shows "arrives (sax_parse_internal (next_token s0)) cs sts ps (R j)"
proof -
  have r: "reads (lexer_of s0) (json_text df j @ cs)" using assms(1) by (simp add: at_state_def)
  note arr = scalar_arrives [OF assms(1,2)] and v = sax_value_def next_token_lexer token_reads_def
  show ?thesis
  proof (cases j)
    case (String s)
    with r scan_quoted [of "lexer_of s0" s cs] assms(4) show ?thesis by (intro arr) (simp_all add: v)
  next
    case (Boolean b)
    have "token_reads (lexer_of s0) (if b then tok_literal_true else tok_literal_false) cs"
      using r scan_literals [of "lexer_of s0" cs] by (cases b) (simp_all add: Boolean)
    then show ?thesis by (intro arr) (simp_all add: v Boolean split: if_splits)
  next
    case (Number_integer k)
    have le: "- (2 ^ 63) \<le> sint k" using sint_greater_eq [of k] by simp
    have "reads (lexer_of s0) (CHR ''-'' # to_string (nat (- sint k)) @ cs)" "- of_nat (nat (- sint k)) = k"
      using r assms(4) by (simp_all add: Number_integer int_text_def)
    with assms(3,4) scan_negative [of "lexer_of s0" "nat (- sint k)" cs] le show ?thesis
      by (intro arr) (simp_all add: v Number_integer)
  next
    case (Number_unsigned k)
    with r scan_unsigned [of "lexer_of s0" "unat k" cs] unsigned_less [of k, where 'a = nat] assms(3) show ?thesis
      by (intro arr) (simp_all add: v)
  next
    case Null
    with r scan_literals(3) [of "lexer_of s0" cs] show ?thesis by (intro arr) (simp_all add: v)
  qed (use assms in simp_all)
qed

lemma text_arrives:
  "at_state s0 (json_text df j @ cs) sts ps j0 \<Longrightarrow> slot_of (the_dom s0) R p \<Longrightarrow> number_end cs \<Longrightarrow> parsable j \<Longrightarrow>
     arrives (sax_parse_internal (next_token s0)) cs sts ps (R j)"
  "at_state s0 (members_text df m @ CHR ''}'' # cs) sts0 (p # ps) (R (Object n)) \<Longrightarrow> hole R p \<Longrightarrow> m \<noteq> [] \<Longrightarrow>
     map_ok (n @ m) \<Longrightarrow> parsable_members m \<Longrightarrow> (\<And>s. enter s = s\<lparr>states := f (states s)\<rparr>) \<Longrightarrow> f sts0 = False # sts \<Longrightarrow>
     arrives (run (sax_key enter (next_token s0))) cs sts ps (R (Object (n @ m)))"
  "at_state s0 (elements_text df xs @ CHR '']'' # cs) (True # sts) (p # ps) (R (Array ys)) \<Longrightarrow> hole R p \<Longrightarrow> xs \<noteq> [] \<Longrightarrow>
     parsable_elements xs \<Longrightarrow> arrives (sax_parse_internal (next_token s0)) cs sts ps (R (Array (ys @ xs)))"
proof (induction df j and df m and df xs arbitrary: s0 cs sts ps j0 R p and s0 cs sts0 sts p ps R n enter f
    and s0 cs sts ps R p ys rule: json_text_members_text_elements_text.induct)
  case (1 df m)
  have "arrives (run (sax_key (\<lambda>s. s\<lparr>states := False # states s\<rparr>) (next_token s1))) cs sts ps (R (Object ([] @ m)))"
    if "at_state s1 (members_text df m @ CHR ''}'' # cs) sts (p # ps) (R (Object []))" "m \<noteq> []" for s1
    by (rule 1(1) [where R = R and n = "[]", OF that(1)]) (use 1 that in \<open>simp_all add: slot_of_def\<close>)
  then show ?case using object_arrives [OF 1(2,3,5)] by simp
next
  case (2 df xs)
  have "arrives (sax_parse_internal (next_token s1)) cs sts ps (R (Array ([] @ xs)))"
    if "at_state s1 (elements_text df xs @ CHR '']'' # cs) (True # sts) (p # ps) (R (Array []))" "xs \<noteq> []" for s1
    by (rule 2(1) [where R = R and ys = "[]", OF that(1)]) (use 2 that in \<open>simp_all add: slot_of_def\<close>)
  then show ?case using array_arrives [OF 2(2,3,5)] by simp
next
  case (11 df k v m)
  show ?case
  proof (rule member_arrives [OF 11(3,4,6) _ 11(8,9) _ _ refl])
    show "arrives (run (sax_key id (next_token s1))) cs sts ps (R (Object ((n @ [(k, v)]) @ m)))"
      if "m \<noteq> []" "at_state s1 (members_text df m @ CHR ''}'' # cs) (False # sts) (p # ps) (R (Object (n @ [(k, v)])))" for s1
      by (rule 11(2) [where R = R and n = "n @ [(k, v)]" and f = id, OF that(1,2) 11(4) that(1)]) (use 11 in simp_all)
  qed (use 11 in auto)
next
  case (13 df v xs)
  show ?case
  proof (rule element_arrives [OF 13(3,4) _ _ refl])
    show "arrives (sax_parse_internal (next_token s1)) cs sts ps (R (Array ((ys @ [v]) @ xs)))"
      if "xs \<noteq> []" "at_state s1 (elements_text df xs @ CHR '']'' # cs) (True # sts) (p # ps) (R (Array (ys @ [v])))" for s1
      by (rule 13(2) [where R = R and ys = "ys @ [v]", OF that(1,2) 13(4) that(1)]) (use 13 in simp_all)
  qed (use 13 in auto)
qed (simp_all add: scalar_text_arrives)

lemma json_parse_text:
  assumes "parsable j"
  shows "json_parse (json_text df j) = Inr j"
proof -
  let ?p = "\<lparr>m_lexer = lexer_init (json_text df j), last_token = tok_uninitialized\<rparr>"
  let ?s = "\<lparr>the_parser = ?p, the_dom = dom_init Null True, states = [], skip_to_state_evaluation = False\<rparr>"
  have start: "at_state ?s (json_text df j @ []) [] [] Null"
    by (simp add: at_state_def dom_init_def reads_lexer_init)
  have "slot_of (the_dom ?s) (\<lambda>w. w) []" by (simp add: slot_root dom_init_def)
  from text_arrives(1) [OF start this _ assms] obtain s where s:
    "sax_parse_internal (next_token ?s) = run (sax_evaluate_state s)" "at_state s [] [] [] j"
    by (auto simp: arrives_def)
  have "sax_parse_internal (next_token ?s) = Inr (True, s)"
    using s by (simp add: sax_evaluate_state_def at_state_def run_def)
  moreover have "next_token ?s = ?s\<lparr>the_parser := parser_init (json_text df j)\<rparr>"
    by (simp add: next_token_def parser_init_def)
  moreover have "token (next_token s) = tok_end_of_input"
    using s(2) scan_end by (simp add: next_token_lexer at_state_def)
  ultimately show ?thesis
    using s(2) by (simp add: json_parse_def parse_def at_state_def)
qed

section \<open>Every parsed value is well-formed\<close>

fun json_wf :: "json \<Rightarrow> bool"
  and json_wf_members :: "(string \<times> json) list \<Rightarrow> bool"
  and json_wf_elements :: "json list \<Rightarrow> bool" where
  "json_wf (Object m) = (map_ok m \<and> json_wf_members m)"
| "json_wf (Array xs) = json_wf_elements xs"
| "json_wf (String s) = utf8_valid s"
| "json_wf (Number_float x) = isfinite x"
| "json_wf Discarded = False"
| "json_wf _ = True"
| "json_wf_members [] = True"
| "json_wf_members ((k, v) # m) = (utf8_valid k \<and> json_wf v \<and> json_wf_members m)"
| "json_wf_elements [] = True"
| "json_wf_elements (v # xs) = (json_wf v \<and> json_wf_elements xs)"

lemma wf_elements: "json_wf_elements xs \<longleftrightarrow> (\<forall>x \<in> set xs. json_wf x)"
  by (induction xs) auto

lemma wf_lookup: "json_wf_members m \<Longrightarrow> map_of m k = Some v \<Longrightarrow> json_wf v"
  by (induction m) (auto split: if_splits)

lemma wf_assign: "json_wf_members m \<Longrightarrow> utf8_valid k \<Longrightarrow> json_wf v \<Longrightarrow> json_wf_members (map_assign k v m)"
  by (induction k v m rule: map_assign.induct) auto

lemma wf_key: "json_wf_members m \<Longrightarrow> map_of m k = Some v \<Longrightarrow> utf8_valid k"
  by (induction m) (auto split: if_splits)

lemma follow_wf: "json_wf j \<Longrightarrow> follow p j = Some v \<Longrightarrow> json_wf v"
  by (induction p j rule: follow.induct)
    (auto simp: wf_elements wf_lookup split: option.splits if_splits)

lemma modify_wf: "(\<And>v. json_wf v \<Longrightarrow> json_wf (f v)) \<Longrightarrow> json_wf j \<Longrightarrow> json_wf (modify p f j)"
proof (induction p f j rule: modify.induct)
  case (2 k p f m)
  then show ?case
    by (auto simp: map_ok_assign wf_lookup intro!: wf_assign dest: wf_key split: option.split)
next
  case (3 i p f xs)
  then show ?case by (auto simp: wf_elements set_update_subset_insert dest!: subsetD [OF set_update_subset_insert])
qed auto

definition dom_wf :: "dom \<Rightarrow> bool" where
  "dom_wf d \<longleftrightarrow> json_wf (root d) \<and> \<not> errored d \<and> allow_exceptions d"

lemma handle_value_wf: "dom_wf d \<Longrightarrow> json_wf v \<Longrightarrow> dom_wf (snd (handle_value v d))"
  by (auto simp: dom_wf_def handle_value_def wf_elements intro!: modify_wf dest: follow_wf
      split: list.splits option.splits json.splits)

lemma dom_events_wf [wf_intros]:
  assumes "dom_wf d"
  shows "json_wf v \<Longrightarrow> dom_wf (sax_scalar v d)" "dom_wf (start_object d)" "dom_wf (start_array d)"
    "dom_wf (end_object d)" "dom_wf (end_array d)" "utf8_valid k \<Longrightarrow> dom_wf (key k d)"
proof -
  show "json_wf v \<Longrightarrow> dom_wf (sax_scalar v d)" using assms by (simp add: sax_scalar_def handle_value_wf)
  show "dom_wf (start_object d)" "dom_wf (start_array d)"
    using handle_value_wf [OF assms, of "Object []"] handle_value_wf [OF assms, of "Array []"]
    by (simp_all add: start_object_def start_array_def dom_wf_def case_prod_unfold Let_def)
  show "dom_wf (end_object d)" "dom_wf (end_array d)"
    using assms by (simp_all add: dom_wf_def end_object_def end_array_def)
  have "json_wf (case j of Object m \<Rightarrow> Object (map_emplace k Null m) | _ \<Rightarrow> j)" if "json_wf j" "utf8_valid k" for j
    using that by (auto simp: map_emplace_def map_ok_assign wf_assign split: json.splits option.splits)
  then show "utf8_valid k \<Longrightarrow> dom_wf (key k d)"
    using assms by (auto simp: dom_wf_def key_def Let_def intro!: modify_wf)
qed

definition sax_wf :: "sax_state \<Rightarrow> bool" where
  "sax_wf s \<longleftrightarrow> dom_wf (the_dom s)
     \<and> (token s = tok_value_string \<longrightarrow> utf8_valid (token_buffer (m_lexer (the_parser s))))"

definition step_wf :: "json_exception + sax_step \<Rightarrow> bool" where
  "step_wf r \<longleftrightarrow> (case r of Inl _ \<Rightarrow> True | Inr (Sax_continue s) \<Rightarrow> sax_wf s | Inr (Sax_return _ s) \<Rightarrow> sax_wf s)"

lemma step_wf_simps [simp]:
  "step_wf (Inr (Sax_continue s)) = sax_wf s" "step_wf (Inr (Sax_return b s)) = sax_wf s"
  by (simp_all add: step_wf_def)

lemma sax_fail_wf [simp]: "sax_wf s \<Longrightarrow> step_wf (sax_fail t c s)"
  by (simp add: sax_fail_def sax_parse_error_def sax_wf_def dom_wf_def step_wf_def)

lemma next_token_wf [simp, wf_intros]: "sax_wf s \<Longrightarrow> sax_wf (next_token s)"
  using scan_utf8 [of "m_lexer (the_parser s)"]
  by (simp add: sax_wf_def) (simp add: next_token_def get_token_def case_prod_unfold Let_def)

lemma sax_event_wf [wf_intros]: "sax_wf s \<Longrightarrow> (\<And>d. dom_wf d \<Longrightarrow> dom_wf (f d)) \<Longrightarrow> sax_wf (sax_event f s)"
  by (simp add: sax_wf_def sax_event_def)

lemma sax_wf_updates [simp]:
  "sax_wf (s\<lparr>states := x\<rparr>) = sax_wf s" "sax_wf (s\<lparr>skip_to_state_evaluation := b\<rparr>) = sax_wf s"
  by (simp_all add: sax_wf_def)

lemma sax_key_wf [wf_intros]:
  assumes "sax_wf s" and "\<And>s. sax_wf s \<Longrightarrow> sax_wf (enter s)"
  shows "step_wf (sax_key enter s)"
proof (cases "token s = tok_value_string")
  case True
  with assms(1) have k: "utf8_valid (token_buffer (m_lexer (the_parser s)))" by (simp add: sax_wf_def)
  have "sax_wf (next_token (sax_event (key (token_buffer (m_lexer (the_parser s)))) s))"
    by (intro next_token_wf sax_event_wf assms(1) dom_events_wf(6) k)
  with True assms(2) show ?thesis by (simp add: sax_key_def Let_def)
qed (simp add: sax_key_def assms(1))

lemma evaluate_state_wf [wf_intros]: "sax_wf s \<Longrightarrow> step_wf (sax_evaluate_state s)"
  by (auto simp: sax_evaluate_state_def sax_after_array_value_def sax_after_object_value_def Let_def
      intro!: wf_intros split: list.split bool.split)

lemma sax_value_wf: "sax_wf s \<Longrightarrow> step_wf (sax_value s)"
proof -
  assume s: "sax_wf s"
  have scalar: "json_wf v \<Longrightarrow> step_wf (sax_evaluate_state (sax_event (sax_scalar v) s))" for v
    using s by (intro wf_intros)
  moreover have "token s = tok_value_string \<Longrightarrow> utf8_valid (token_buffer (m_lexer (the_parser s)))"
    using s by (simp add: sax_wf_def)
  moreover have "step_wf (sax_begin_object s)" "step_wf (sax_begin_array s)"
    using s by (auto simp: sax_begin_object_def sax_begin_array_def Let_def
        intro!: wf_intros)
  moreover have "step_wf (sax_value_float s)"
    using s scalar by (simp add: sax_value_float_def Let_def sax_parse_error_def sax_wf_def dom_wf_def)
      (simp add: step_wf_def)
  ultimately show ?thesis
    using s by (simp add: sax_value_def Let_def split: token_type.split)
qed

lemma sax_parse_internal_wf:
  "sax_wf s \<Longrightarrow> sax_parse_internal s = Inr (b, s') \<Longrightarrow> sax_wf s'"
proof (induction s rule: sax_parse_internal.induct)
  case (1 s)
  have "step_wf (sax_iteration s)"
    using 1(2) by (simp add: sax_iteration_def sax_value_wf evaluate_state_wf)
  moreover obtain r where r: "sax_iteration s = Inr r"
    using 1(3) by (subst (asm) sax_parse_internal.simps) (auto simp: bindr_eq_Inr)
  ultimately show ?case
    using 1(1) [OF r] 1(3) sax_parse_internal.simps [of s] by (cases r) simp_all
qed

lemma json_parse_wf:
  assumes "json_parse input = Inr j"
  shows "json_wf j"
proof -
  let ?s = "\<lparr>the_parser = \<lparr>m_lexer = lexer_init input, last_token = tok_uninitialized\<rparr>,
     the_dom = dom_init Null True, states = [], skip_to_state_evaluation = False\<rparr>"
  have "sax_wf (next_token ?s)" by (rule next_token_wf) (simp add: sax_wf_def dom_wf_def dom_init_def)
  moreover have "next_token ?s = ?s\<lparr>the_parser := parser_init input\<rparr>"
    by (simp add: next_token_def parser_init_def)
  ultimately obtain b s' where s': "sax_parse_internal (next_token ?s) = Inr (b, s')" "sax_wf s'"
    and "Inr j = bindr (let s1 = next_token s'
               in if token s1 \<noteq> tok_end_of_input
                  then bindr (sax_parse_error (syntax_error tok_end_of_input ''value'' (the_parser s1)) (the_dom s1))
                         (\<lambda>(_, d). Inr d)
                  else Inr (the_dom s1)) (\<lambda>d. Inr (if errored d then Discarded else root d))"
    using assms sax_parse_internal_wf
    by (auto simp: json_parse_def parse_def bindr_eq_Inr)
  moreover have "dom_wf (the_dom s')" using s'(2) by (simp add: sax_wf_def)
  ultimately show ?thesis
    by (auto simp: Let_def sax_parse_error_def dom_wf_def split: if_splits)
qed

section \<open>Errors and progress\<close>

text \<open>The two exceptions a parse can throw: a syntax error and a number that overflows.\<close>

definition parse_exc :: "json_exception \<Rightarrow> bool" where
  "parse_exc e \<longleftrightarrow> (\<exists>pos w. e = parse_error 101 pos w) \<or> (\<exists>w. e = out_of_range 406 w)"

lemma sax_fail_exc: "sax_fail t c s = Inl e \<Longrightarrow> parse_exc e"
  by (auto simp: sax_fail_def sax_parse_error_def syntax_error_def parse_error_create_def parse_exc_def Let_def
      split: if_splits)

lemma sax_key_exc: "sax_key enter s = Inl e \<Longrightarrow> parse_exc e"
  by (auto simp: sax_key_def Let_def split: if_splits dest: sax_fail_exc)

lemma evaluate_state_exc: "sax_evaluate_state s = Inl e \<Longrightarrow> parse_exc e"
  by (auto simp: sax_evaluate_state_def sax_after_array_value_def sax_after_object_value_def Let_def
      split: list.splits bool.splits if_splits dest: sax_fail_exc sax_key_exc)

lemma sax_value_exc: "sax_value s = Inl e \<Longrightarrow> parse_exc e"
proof -
  have "sax_begin_object s = Inl e \<Longrightarrow> parse_exc e" "sax_begin_array s = Inl e \<Longrightarrow> parse_exc e"
    by (auto simp: sax_begin_object_def sax_begin_array_def Let_def split: if_splits
        dest: sax_key_exc evaluate_state_exc)
  moreover have "sax_value_float s = Inl e \<Longrightarrow> parse_exc e"
    by (auto simp: sax_value_float_def sax_parse_error_def Let_def out_of_range_create_def parse_exc_def
        split: if_splits dest: evaluate_state_exc [unfolded parse_exc_def])
  ultimately show "sax_value s = Inl e \<Longrightarrow> parse_exc e"
    by (auto simp: sax_value_def Let_def split: token_type.splits dest: sax_fail_exc evaluate_state_exc)
qed

lemma sax_parse_internal_exc: "sax_parse_internal s = Inl e \<Longrightarrow> parse_exc e"
proof (induction s rule: sax_parse_internal.induct)
  case (1 s)
  have "sax_iteration s = Inl e \<Longrightarrow> parse_exc e"
    by (auto simp: sax_iteration_def split: if_splits dest: sax_value_exc evaluate_state_exc)
  with 1 sax_parse_internal.simps [of s] show ?case
    by (cases "sax_iteration s") (auto split: sax_step.splits)
qed

text \<open>The steps of the loop that do not end it.\<close>

definition sax_continues :: "(sax_state \<times> sax_state) set" where
  "sax_continues = {(s, s'). sax_iteration s = Inr (Sax_continue s')}"

definition sax_start :: "string \<Rightarrow> sax_state" where
  "sax_start input = \<lparr>the_parser = parser_init input, the_dom = dom_init Null True, states = [],
     skip_to_state_evaluation = False\<rparr>"

lemma continues_bound: "(s, s') \<in> sax_continues ^^ n \<Longrightarrow> n + sax_measure s' \<le> sax_measure s"
proof (induction n arbitrary: s')
  case (Suc n)
  then obtain t where "(s, t) \<in> sax_continues ^^ n" "(t, s') \<in> sax_continues" by auto
  with Suc.IH [of t] sax_iteration_measure [of t s'] show ?case by (simp add: sax_continues_def)
qed simp

lemma sax_start_measure: "sax_measure (sax_start input) \<le> length input"
proof -
  let ?s = "\<lparr>the_parser = \<lparr>m_lexer = lexer_init input, last_token = tok_uninitialized\<rparr>,
     the_dom = dom_init Null True, states = [], skip_to_state_evaluation = False\<rparr>"
  have "sax_start input = next_token ?s" by (simp add: sax_start_def next_token_def parser_init_def)
  moreover have "input_left ?s = length input" by (simp add: pending_def lexer_init_def)
  ultimately show ?thesis using next_token_measure [of ?s] by simp
qed

lemma parsable_dumpable:
  "parsable j \<Longrightarrow> dumpable j" "parsable_members m \<Longrightarrow> dumpable_members m" "parsable_elements xs \<Longrightarrow> dumpable_elements xs"
  by (induction j and m and xs rule: parsable_parsable_members_parsable_elements.induct) simp_all

section \<open>Properties\<close>



text \<open>
  C8: every value \<open>parse\<close> returns is well-formed: objects are sorted maps without duplicate keys,
  keys and strings are well-formed UTF-8, numbers are finite, and no part of it is a discarded
  value.
\<close>

theorem json_parse_well_formed:
  assumes "json_parse input = Inr j"
  shows "json_wf j"
  using assms by (rule json_parse_wf)

theorem json_parse_well_formed_witness:
  "json_parse (json_text (\<lambda>_. []) (Object [(''id'', Number_unsigned 3)])) = Inr (Object [(''id'', Number_unsigned 3)])
     \<and> json_wf (Object [(''id'', Number_unsigned 3)])"
proof
  have "parsable (Object [(''id'', Number_unsigned 3)])" by code_simp
  then show p: "json_parse (json_text (\<lambda>_. []) (Object [(''id'', Number_unsigned 3)])) = Inr (Object [(''id'', Number_unsigned 3)])"
    by (rule json_parse_text)
  show "json_wf (Object [(''id'', Number_unsigned 3)])" by (rule json_parse_well_formed [OF p])
qed




end
