(* ===== verification/Json_Protocol.thy ===== *)
theory Json_Protocol
  imports Base64 Protocol Json_Roundtrip
begin

text \<open>
  \<^verbatim>\<open>src/src/json_protocol.cpp\<close>: the translation between the messages of \<open>Protocol\<close> and
  JSON values, and \<open>JSONSerializer\<close>, which goes on to JSON text. The overloads of \<open>to_json\<close>
  and \<open>from_json\<close> are told apart by a prefix for the namespace and a suffix for the class.
\<close>

section \<open>Exceptions\<close>

datatype protocol_exception =
    json_exc json_exception
  | base64_exc b64_exc
  | version_mismatch_error string
  | invalid_method_error string

abbreviation json_try :: "json_exception + 'a \<Rightarrow> protocol_exception + 'a" where
  "json_try \<equiv> map_exc json_exc"

abbreviation base64_try :: "b64_exc + 'a \<Rightarrow> protocol_exception + 'a" where
  "base64_try \<equiv> map_exc base64_exc"

section \<open>namespace Request\<close>

definition timing_table :: "(Timing \<times> string) list" where
  "timing_table =
     [(Immediate, ''immediate''), (FrameEnd, ''frame_end''), (MemoryAccess, ''memory_access''),
      (GPUAccess, ''gpu_access''), (SpecialAccess, ''special_access'')]"

definition method_table :: "(Method \<times> string) list" where
  "method_table =
     [(Method_Command, ''command''), (Method_MemoryRead, ''memory_read''),
      (Method_MemoryWrite, ''memory_write''), (Method_GPURead, ''gpu_read''),
      (Method_GPUWrite, ''gpu_write''), (Method_SpecialRead, ''special_read''),
      (Method_SpecialWrite, ''special_write'')]"

definition sync_table :: "(Sync \<times> string) list" where
  "sync_table = [(Blocking, ''blocking''), (NonBlocking, ''nonblocking'')]"

definition function_table :: "(Function \<times> string) list" where
  "function_table = [(Once, ''once''), (Conditional, ''conditional''), (Callback, ''callback'')]"

definition command_type_table :: "(CommandType \<times> string) list" where
  "command_type_table =
     [(Continue, ''continue''), (CancelCallback, ''cancel''), (ClearCPUCache, ''clear_cpu_cache''),
      (SaveState, ''save_state''), (LoadState, ''load_state''), (PauseEmu, ''pause_emu''),
      (ResumeEmu, ''resume_emu''), (LoadRom, ''load_rom''), (CloseRom, ''close_rom''),
      (ResetRom, ''reset_rom''), (CreateOverlay, ''create_overlay''), (DrawOverlay, ''draw_overlay'')]"

text \<open>\<open>FromBasePacket\<close>: the base part of the packet and the value of \<open>params\<close>.\<close>

definition Request_FromBasePacket :: "json \<Rightarrow> json_exception + request_packet \<times> json" where
  "Request_FromBasePacket j =
     bindr (json_at j ''id'') (\<lambda>j_id.
     bindr (get_to_u32 j_id) (\<lambda>ident.
     bindr (json_at j ''method'') (\<lambda>j_method.
     bindr (json_at j ''params'') (\<lambda>params.
     bindr (json_at params ''timing'') (\<lambda>j_timing.
     bindr (json_at params ''sync'') (\<lambda>j_sync.
     bindr (json_at params ''function'') (\<lambda>j_function.
     Inr (request_packet_make ident (enum_from_json method_table j_method)
            (enum_from_json timing_table j_timing) (enum_from_json sync_table j_sync)
            (enum_from_json function_table j_function), params))))))))"

definition Request_ToBasePacket :: "'a request_packet_scheme \<Rightarrow> json" where
  "Request_ToBasePacket p =
     init_list
       [init_list [String ''jsonrpc'', String ''2.0''],
        init_list [String ''method'', enum_to_json method_table (packet_method p)],
        init_list [String ''id'', u32_to_json (packet_id p)],
        init_list [String ''params'',
          init_list
            [init_list [String ''timing'', enum_to_json timing_table (packet_timing p)],
             init_list [String ''sync'', enum_to_json sync_table (packet_sync p)],
             init_list [String ''function'', enum_to_json function_table (packet_function p)]]]]"

text \<open>
  \<open>auto params = j["params"]\<close> is a copy: what is assigned to it afterwards does not reach
  \<open>j\<close>.
\<close>

definition Request_to_json_MemoryWrite :: "memory_write \<Rightarrow> protocol_exception + json" where
  "Request_to_json_MemoryWrite p =
     (let j = Request_ToBasePacket p
      in bindr (json_try (subscript_get j ''params'')) (\<lambda>(params, j1).
         bindr (base64_try (EncodeBase64 (write_data p))) (\<lambda>s.
         bindr (json_try (subscript_set params ''data'' (String s))) (\<lambda>params1.
         bindr (json_try (subscript_set params1 ''address'' (u64_to_json (write_address p)))) (\<lambda>params2.
         Inr j1)))))"

definition Request_from_json_MemoryWrite :: "json \<Rightarrow> protocol_exception + memory_write" where
  "Request_from_json_MemoryWrite j =
     bindr (json_try (Request_FromBasePacket j)) (\<lambda>(base, params).
     bindr (json_try (json_at params ''data'')) (\<lambda>j_data.
     bindr (json_try (get_to_string j_data)) (\<lambda>s.
     bindr (base64_try (DecodeBase64 s)) (\<lambda>data.
     bindr (json_try (json_at params ''address'')) (\<lambda>j_address.
     bindr (json_try (get_to_u64 j_address)) (\<lambda>address.
     Inr (request_packet.extend base (memory_write.fields address data))))))))"

definition Request_to_json_MemoryRead :: "memory_read \<Rightarrow> protocol_exception + json" where
  "Request_to_json_MemoryRead p =
     (let j = Request_ToBasePacket p
      in bindr (json_try (subscript_get j ''params'')) (\<lambda>(params, j1).
         bindr (json_try (subscript_set params ''length'' (u64_to_json (read_length p)))) (\<lambda>params1.
         bindr (json_try (subscript_set params1 ''address'' (u64_to_json (read_address p)))) (\<lambda>params2.
         Inr j1))))"

definition Request_from_json_MemoryRead :: "json \<Rightarrow> protocol_exception + memory_read" where
  "Request_from_json_MemoryRead j =
     bindr (json_try (Request_FromBasePacket j)) (\<lambda>(base, params).
     bindr (json_try (json_at params ''address'')) (\<lambda>j_address.
     bindr (json_try (get_to_u64 j_address)) (\<lambda>address.
     bindr (json_try (json_at params ''length'')) (\<lambda>j_length.
     bindr (json_try (get_to_u64 j_length)) (\<lambda>len.
     Inr (request_packet.extend base (memory_read.fields address len)))))))"

text \<open>\<open>to_json\<close> of the variant handles one alternative and leaves \<open>j\<close> alone otherwise.\<close>

definition Request_to_json :: "json \<Rightarrow> request \<Rightarrow> protocol_exception + json" where
  "Request_to_json j p =
     (case p of Req_MemoryWrite a \<Rightarrow> Request_to_json_MemoryWrite a | _ \<Rightarrow> Inr j)"

section \<open>namespace Response\<close>

text \<open>The error that is read is a local variable; only the id reaches the packet.\<close>

definition Response_FromBasePacket ::
    "json \<Rightarrow> 'a response_packet_scheme \<Rightarrow> json_exception + 'a response_packet_scheme" where
  "Response_FromBasePacket j p =
     bindr (json_at j ''id'') (\<lambda>j_id.
     bindr (get_to_u32 j_id) (\<lambda>ident.
     bindr (json_at j ''error'') (\<lambda>err.
     bindr (json_at err ''code'') (\<lambda>j_code.
     bindr (get_to_u32 j_code) (\<lambda>e_code.
     bindr (json_at err ''message'') (\<lambda>j_message.
     bindr (get_to_string j_message) (\<lambda>e_message.
     Inr (p\<lparr>response_id := ident\<rparr>))))))))"

definition Response_ToBasePacket :: "'a response_packet_scheme \<Rightarrow> json" where
  "Response_ToBasePacket p =
     init_list [init_list [String ''jsonrpc'', String ''2.0''],
                init_list [String ''id'', u32_to_json (response_id p)]]"

definition EncodeIfError :: "json \<Rightarrow> 'a response_packet_scheme \<Rightarrow> json_exception + bool \<times> json" where
  "EncodeIfError j p =
     (if err_code (response_err p) = error_code None_Error then Inr (False, j)
      else
        bindr (subscript_set j ''error''
                 (init_list [init_list [String ''code'', u32_to_json (err_code (response_err p))],
                             init_list [String ''message'', String (err_message (response_err p))]]))
          (\<lambda>j1. Inr (True, j1)))"

definition Response_to_json_MemoryRead :: "memory_read_response \<Rightarrow> protocol_exception + json" where
  "Response_to_json_MemoryRead p =
     bindr (json_try (EncodeIfError (Response_ToBasePacket p) p)) (\<lambda>(is_error, j).
     if is_error then Inr j
     else bindr (base64_try (EncodeBase64 (response_result p))) (\<lambda>s.
          json_try (subscript_set j ''result'' (String s))))"

definition Response_from_json_MemoryRead ::
    "json \<Rightarrow> memory_read_response \<Rightarrow> protocol_exception + memory_read_response" where
  "Response_from_json_MemoryRead j p =
     bindr (json_try (Response_FromBasePacket j p)) (\<lambda>p1.
     bindr (json_try (json_at j ''params'')) (\<lambda>params.
     bindr (json_try (json_at params ''data'')) (\<lambda>j_data.
     bindr (json_try (get_to_string j_data)) (\<lambda>s.
     bindr (base64_try (DecodeBase64 s)) (\<lambda>data.
     Inr (p1\<lparr>response_result := data\<rparr>))))))"

definition Response_to_json_MemoryWrite :: "memory_write_response \<Rightarrow> protocol_exception + json" where
  "Response_to_json_MemoryWrite p =
     bindr (json_try (EncodeIfError (Response_ToBasePacket p) p)) (\<lambda>(is_error, j).
     if is_error then Inr j else json_try (subscript_set j ''result'' (String [])))"

definition Response_from_json_MemoryWrite ::
    "json \<Rightarrow> memory_write_response \<Rightarrow> protocol_exception + memory_write_response" where
  "Response_from_json_MemoryWrite j p = json_try (Response_FromBasePacket j p)"

definition Response_to_json :: "json \<Rightarrow> response \<Rightarrow> protocol_exception + json" where
  "Response_to_json j packet =
     (case packet of
        Resp_MemoryWrite p \<Rightarrow> Response_to_json_MemoryWrite p
      | Resp_MemoryRead p \<Rightarrow> Response_to_json_MemoryRead p
      | Resp_Packet _ \<Rightarrow> Inr j)"

section \<open>JSONSerializer and MsgPackSerializer\<close>

definition JSON_SerializeResponse ::
    "(f64 \<Rightarrow> string) \<Rightarrow> response \<Rightarrow> protocol_exception + u8 list" where
  "JSON_SerializeResponse dump_float packet =
     bindr (Response_to_json Null packet) (\<lambda>j.
     bindr (json_try (json_dump dump_float j)) (\<lambda>str.
     Inr (map byte_of_char str)))"

definition JSON_DeserializeRequest :: "u8 list \<Rightarrow> protocol_exception + request" where
  "JSON_DeserializeRequest raw =
     bindr (json_try (json_parse (map char_of_byte raw))) (\<lambda>j.
     bindr (json_try (json_at j ''jsonrpc'')) (\<lambda>version.
     if \<not> json_eq version (String ''2.0'') then Inl (version_mismatch_error ''Version mismatch.'')
     else
       bindr (json_try (json_at j ''method'')) (\<lambda>j_method.
       let m = enum_from_json method_table j_method
       in if m = Method_MemoryWrite then
            bindr (Request_from_json_MemoryWrite j) (\<lambda>a. Inr (Req_MemoryWrite a))
          else if m = Method_MemoryRead then
            bindr (Request_from_json_MemoryRead j) (\<lambda>a. Inr (Req_MemoryRead a))
          else Inl (invalid_method_error ''Invalid method''))))"

text \<open>
  The MessagePack serializer is a stub: it writes nothing, and it returns a default
  constructed packet, whose members \<open>uninit\<close> are indeterminate.
\<close>

definition MsgPack_SerializeResponse :: "response \<Rightarrow> u8 list" where
  "MsgPack_SerializeResponse packet = []"

definition MsgPack_DeserializeRequest :: "request_packet \<Rightarrow> u8 list \<Rightarrow> request" where
  "MsgPack_DeserializeRequest uninit raw = Req_Packet uninit"

section \<open>JSON values of messages\<close>

lemma init_list_pairs:
  "init_list (map (\<lambda>(k, v). Array [String k, v]) kvs) = Object (foldl (\<lambda>m (k, v). map_emplace k v m) [] kvs)"
proof -
  have "foldl emplace_element m (map (\<lambda>(k, v). Array [String k, v]) kvs)
      = foldl (\<lambda>m (k, v). map_emplace k v m) m kvs" for m
    by (induction kvs arbitrary: m) auto
  then show ?thesis by (auto simp: init_list_def is_pair_element_def list_all_iff)
qed

lemma init_list_key_value [simp]: "\<not> is_pair_element v \<Longrightarrow> init_list [String k, v] = Array [String k, v]"
  by (simp add: init_list_def is_pair_element_def)

lemma enum_to_json_String: "\<exists>s. enum_to_json tab e = String s"
  by (auto simp: enum_to_json_def split: option.splits)

lemma not_pair [simp]:
  "\<not> is_pair_element (String s)" "\<not> is_pair_element (Object m)" "\<not> is_pair_element (Number_unsigned n)"
  "\<not> is_pair_element (enum_to_json tab e)"
  using enum_to_json_String [of tab e] by (auto simp: is_pair_element_def)

lemma Request_ToBasePacket_eq:
  "Request_ToBasePacket p =
     Object [(''id'', Number_unsigned (ucast (packet_id p))), (''jsonrpc'', String ''2.0''),
             (''method'', enum_to_json method_table (packet_method p)),
             (''params'', Object
               [(''function'', enum_to_json function_table (packet_function p)),
                (''sync'', enum_to_json sync_table (packet_sync p)),
                (''timing'', enum_to_json timing_table (packet_timing p))])]"
  using init_list_pairs [of "[(''timing'', enum_to_json timing_table (packet_timing p)),
                (''sync'', enum_to_json sync_table (packet_sync p)),
             (''function'', enum_to_json function_table (packet_function p))]"]
  init_list_pairs [of "[(''jsonrpc'', String ''2.0''), (''method'', enum_to_json method_table (packet_method p)), (''id'', Number_unsigned (ucast (packet_id p))), 
             (''params'', Object
               [(''function'', enum_to_json function_table (packet_function p)),
                (''sync'', enum_to_json sync_table (packet_sync p)),
                (''timing'', enum_to_json timing_table (packet_timing p))])]"]
  by (simp add: Request_ToBasePacket_def u32_to_json_def map_emplace_def)

lemma Response_ToBasePacket_eq:
  "Response_ToBasePacket p =
     Object [(''id'', Number_unsigned (ucast (response_id p))), (''jsonrpc'', String ''2.0'')]"
  using init_list_pairs [of "[(''jsonrpc'', String ''2.0''), (''id'', Number_unsigned (ucast (response_id p)))]"]
  by (simp add: Response_ToBasePacket_def u32_to_json_def map_emplace_def)

lemma EncodeIfError_eq:
  "EncodeIfError (Response_ToBasePacket p) p =
     (if err_code (response_err p) = 0 then Inr (False, Response_ToBasePacket p)
      else Inr (True, Object
        [(''error'', Object [(''code'', Number_unsigned (ucast (err_code (response_err p)))),
                             (''message'', String (err_message (response_err p)))]),
         (''id'', Number_unsigned (ucast (response_id p))), (''jsonrpc'', String ''2.0'')]))"
  using init_list_pairs [of "[(''code'', Number_unsigned (ucast (err_code (response_err p)))),
                             (''message'', String (err_message (response_err p)))]"]
  by (simp add: EncodeIfError_def Response_ToBasePacket_eq subscript_set_def subscript_def u32_to_json_def map_emplace_def)


lemma enum_from_json_String:
  "enum_from_json tab j = (case j of String s \<Rightarrow> (case map_of (map (\<lambda>(x, s). (s, x)) tab) s of Some x \<Rightarrow> x | None \<Rightarrow> fst (hd tab)) | _ \<Rightarrow> fst (hd tab))"
proof -
  have "(case j of String s \<Rightarrow> map_of (map (\<lambda>(x, s). (s, x)) tab) s | _ \<Rightarrow> None) =
   map_option fst (find (\<lambda>(x, s). json_eq (String s) j) tab)"
   by (induction tab; cases j) auto
  then show ?thesis by (cases j) (auto simp: enum_from_json_def split: option.splits)
qed

definition error_text :: "'a response_packet_scheme \<Rightarrow> string" where
  \<open>error_text p =
     ''{"error":{"code":'' @ to_string (unat (err_code (response_err p)))
     @ '',"message":'' @ quote_text (err_message (response_err p))
     @ ''},"id":'' @ to_string (unat (response_id p)) @ '',"jsonrpc":"2.0"}''\<close>

definition result_text :: "u32 \<Rightarrow> string \<Rightarrow> string" where
  \<open>result_text ident result =
     ''{"id":'' @ to_string (unat ident) @ '',"jsonrpc":"2.0","result":"'' @ result @ ''"}''\<close>

fun response_text :: "response \<Rightarrow> string" where
  "response_text (Resp_Packet p) = ''null''"
| "response_text (Resp_MemoryRead p) =
     (if err_code (response_err p) = 0 then result_text (response_id p) (rfc4648_encode (response_result p))
      else error_text p)"
| "response_text (Resp_MemoryWrite p) =
     (if err_code (response_err p) = 0 then result_text (response_id p) [] else error_text p)"

fun message_ok :: "response \<Rightarrow> bool" where
  "message_ok (Resp_Packet p) = True"
| "message_ok (Resp_MemoryRead p) = (err_code (response_err p) \<noteq> 0 \<longrightarrow> utf8_valid (err_message (response_err p)))"
| "message_ok (Resp_MemoryWrite p) = (err_code (response_err p) \<noteq> 0 \<longrightarrow> utf8_valid (err_message (response_err p)))"

lemma plain_chars_check:
  "list_all (\<lambda>c. escape_byte c = [c] \<and> utf8_ranges (of_char c) = Some []) (CHR ''='' # from_6_bit_table)"
  by code_simp

lemma unat_ucast_64 [simp]: "unat (ucast (x :: u32) :: u64) = unat x"
  using unsigned_less [of x, where 'a = nat] by (simp add: unsigned_ucast_eq take_bit_nat_eq_self)

lemma rfc4648_encode_chars: "set (rfc4648_encode xs) \<subseteq> set (CHR ''='' # from_6_bit_table)"
proof -
  have "b64_char v \<in> set from_6_bit_table" if "v < 64" for v
    using that unsigned_less[of v, where 'a = nat] by (auto simp: from_6_bit_table_def word_less_nat_alt simp del: list.set intro!: nth_mem)
  then show ?thesis unfolding rfc4648_encode_padding
    by (auto dest!: sextets_less)
qed

lemma plain_text:
  "set s \<subseteq> set (CHR ''='' # from_6_bit_table) \<Longrightarrow> utf8_valid s \<and> concat (map escape_byte s) = s"
proof (induction s)
  case (Cons c s)
  then have "escape_byte c = [c]" "utf8_ranges (of_char c) = Some []"
    using plain_chars_check by (auto simp: list_all_iff)
  with Cons show ?case by simp
qed simp

lemma rfc4648_encode_utf8: "utf8_valid (rfc4648_encode xs)"
  using plain_text [OF rfc4648_encode_chars] by blast

lemma subscript_result:
  "subscript_set (Response_ToBasePacket p) ''result'' v = Inr (Object
     [(''id'', Number_unsigned (ucast (response_id p))), (''jsonrpc'', String ''2.0''), (''result'', v)])"
  by (simp add: subscript_set_def subscript_def Response_ToBasePacket_eq map_emplace_def)

lemma JSON_keys:
  "utf8_valid ''id''" "utf8_valid ''jsonrpc''" "utf8_valid ''2.0''" "utf8_valid ''result''"
  "utf8_valid ''error''"  "utf8_valid ''code''" "utf8_valid ''message''"
  "quote_text ''id'' = [CHR 0x22] @ ''id'' @ [CHR 0x22]"
  "quote_text ''jsonrpc'' = [CHR 0x22] @ ''jsonrpc'' @ [CHR 0x22]"
  "quote_text ''2.0'' = [CHR 0x22] @ ''2.0'' @ [CHR 0x22]"
  "quote_text ''result'' = [CHR 0x22] @ ''result'' @ [CHR 0x22]"
  "quote_text ''error'' = [CHR 0x22] @ ''error'' @ [CHR 0x22]"
  "quote_text ''code'' = [CHR 0x22] @ ''code'' @ [CHR 0x22]"
  "quote_text ''message'' = [CHR 0x22] @ ''message'' @ [CHR 0x22]"
  by code_simp+

lemma Response_to_json_text:
  "\<exists>j. Response_to_json Null packet = Inr j \<and> json_text df j = response_text packet \<and> dumpable j = message_ok packet"
proof (cases packet)
  case (Resp_MemoryRead p)
  have enc: "utf8_valid (rfc4648_encode (response_result p))"
    "concat (map escape_byte (rfc4648_encode (response_result p))) = rfc4648_encode (response_result p)"
    using plain_text [OF rfc4648_encode_chars] by blast+
  show ?thesis
    using enc
    by (cases "err_code (response_err p) = 0")
      (simp_all add: Resp_MemoryRead Response_to_json_def Response_to_json_MemoryRead_def EncodeIfError_eq enc_result
        subscript_result result_text_def error_text_def JSON_keys quote_text_def [of "rfc4648_encode _"]
        del: utf8_valid_pending.simps)
next
  case (Resp_MemoryWrite p)
  show ?thesis
    by (cases "err_code (response_err p) = 0")
      (simp_all add: Resp_MemoryWrite Response_to_json_def Response_to_json_MemoryWrite_def EncodeIfError_eq
        subscript_result result_text_def error_text_def JSON_keys quote_text_def [of "[]"] del: utf8_valid_pending.simps(3))
qed (simp add: Response_to_json_def)


lemma Serialize_ok:
  assumes "message_ok packet"
  shows "JSON_SerializeResponse dump_float packet = Inr (map byte_of_char (response_text packet))"
proof -
  obtain j where j: "Response_to_json Null packet = Inr j" "json_text dump_float j = response_text packet" "dumpable j"
    using Response_to_json_text [of packet dump_float] assms by auto
  with dump_ok(1) [OF j(3), of dump_float "[]"] show ?thesis
    by (simp add: JSON_SerializeResponse_def json_dump_def)
qed

lemma Serialize_fails:
  assumes "\<not> message_ok packet"
  shows "\<exists>e. JSON_SerializeResponse dump_float packet = Inl e"
proof -
  obtain j where j: "Response_to_json Null packet = Inr j" "\<not> dumpable j"
    using Response_to_json_text [of packet dump_float] assms by auto
  with dump_fails(1) [OF j(2), of dump_float "[]"] show ?thesis
    by (auto simp: JSON_SerializeResponse_def json_dump_def)
qed

section \<open>Requests as a client writes them\<close>

definition request_fields :: "'a request_packet_scheme \<Rightarrow> string \<Rightarrow> json \<Rightarrow> json" where
  "request_fields p meth params =
     Object [(''id'', Number_unsigned (ucast (packet_id p))), (''jsonrpc'', String ''2.0''),
             (''method'', String meth), (''params'', params)]"

definition memory_read_value :: "memory_read \<Rightarrow> json" where
  "memory_read_value p = request_fields p ''memory_read'' (Object
     [(''address'', Number_unsigned (read_address p)),
      (''function'', enum_to_json function_table (packet_function p)),
      (''length'', Number_unsigned (read_length p)),
      (''sync'', enum_to_json sync_table (packet_sync p)),
      (''timing'', enum_to_json timing_table (packet_timing p))])"

definition memory_write_value :: "memory_write \<Rightarrow> string \<Rightarrow> json" where
  "memory_write_value p data = request_fields p ''memory_write'' (Object
     [(''address'', Number_unsigned (write_address p)),
      (''data'', String data),
      (''function'', enum_to_json function_table (packet_function p)),
      (''sync'', enum_to_json sync_table (packet_sync p)),
      (''timing'', enum_to_json timing_table (packet_timing p))])"

definition wire :: "json \<Rightarrow> u8 list" where
  "wire j = map byte_of_char (json_text (\<lambda>_. []) j)"

lemma enum_from_json_unknown:
  assumes "\<And>s. j = String s \<Longrightarrow> s \<notin> snd ` set tab"
  shows "enum_from_json tab j = fst (hd tab)"
proof (cases j)
  case (String s)
  then have "map_of (map (\<lambda>(x, s). (s, x)) tab) s = None"
    using assms by (auto simp: map_of_eq_None_iff image_iff)
  then show ?thesis by (simp add: enum_from_json_String String)
qed (simp_all add: enum_from_json_String)

lemma enum_roundtrips [simp]:
  "enum_from_json timing_table (enum_to_json timing_table t) = t"
  "enum_from_json method_table (enum_to_json method_table m) = m"
  "enum_from_json sync_table (enum_to_json sync_table s) = s"
  "enum_from_json function_table (enum_to_json function_table f) = f"
  "enum_from_json command_type_table (enum_to_json command_type_table c) = c"
proof -
  show "enum_from_json timing_table (enum_to_json timing_table t) = t"
    by (cases t) (simp_all add: enum_from_json_String enum_to_json_def timing_table_def)
  show "enum_from_json method_table (enum_to_json method_table m) = m"
    by (cases m) (simp_all add: enum_from_json_String enum_to_json_def method_table_def)
  show "enum_from_json sync_table (enum_to_json sync_table s) = s"
    by (cases s) (simp_all add: enum_from_json_String enum_to_json_def sync_table_def)
  show "enum_from_json function_table (enum_to_json function_table f) = f"
    by (cases f) (simp_all add: enum_from_json_String enum_to_json_def function_table_def)
  show "enum_from_json command_type_table (enum_to_json command_type_table c) = c"
    by (cases c) (simp_all add: enum_from_json_String enum_to_json_def command_type_table_def)
qed

lemma ascii_utf8: "list_all (\<lambda>c. (of_char c :: int) < 0x80) s \<Longrightarrow> utf8_valid s"
  by (induction s) (simp_all add: utf8_ranges_def)

lemma enum_texts_parsable:
  "parsable (enum_to_json timing_table t)" "parsable (enum_to_json sync_table s)"
  "parsable (enum_to_json function_table f)"
proof -
  show "parsable (enum_to_json timing_table t)"
    by (cases t) (simp_all add: enum_to_json_def timing_table_def ascii_utf8 del: utf8_valid_pending.simps)
  show "parsable (enum_to_json sync_table s)"
    by (cases s) (simp_all add: enum_to_json_def sync_table_def ascii_utf8 del: utf8_valid_pending.simps)
  show "parsable (enum_to_json function_table f)"
    by (cases f) (simp_all add: enum_to_json_def function_table_def ascii_utf8 del: utf8_valid_pending.simps)
qed

lemma request_values_parsable:
  "parsable (memory_read_value p)" "utf8_valid data \<Longrightarrow> parsable (memory_write_value q data)"
  by (simp_all add: memory_read_value_def memory_write_value_def request_fields_def enum_texts_parsable
      map_ok_def ascii_utf8 del: utf8_valid_pending.simps)

lemma wire_parses: "parsable j \<Longrightarrow> json_parse (map char_of_byte (wire j)) = Inr j"
  by (simp add: wire_def json_parse_text comp_def)

lemma ucast_id [simp]: "ucast (ucast (x :: u32) :: u64) = x"
  by (rule word_unat_eq_iff [THEN iffD2]) (simp add: unsigned_ucast_eq take_bit_word_eq_self)

lemma json_eq_String [simp]: "json_eq j (String s) \<longleftrightarrow> j = String s"
  by (cases j) (auto simp: json_eq_number_def)

lemma method_of_text [simp]:
  "enum_from_json method_table (String ''memory_read'') = Method_MemoryRead"
  "enum_from_json method_table (String ''memory_write'') = Method_MemoryWrite"
  by (simp_all add: enum_from_json_String method_table_def)

lemma method_from_json:
  "enum_from_json method_table j = Method_MemoryRead \<longleftrightarrow> j = String ''memory_read''"
  "enum_from_json method_table j = Method_MemoryWrite \<longleftrightarrow> j = String ''memory_write''"
  by (auto simp: enum_from_json_String method_table_def split: json.splits option.splits if_splits)

lemma FromBasePacket_fields:
  assumes "json_at ps ''timing'' = Inr (enum_to_json timing_table (packet_timing p))"
    and "json_at ps ''sync'' = Inr (enum_to_json sync_table (packet_sync p))"
    and "json_at ps ''function'' = Inr (enum_to_json function_table (packet_function p))"
  shows "Request_FromBasePacket (request_fields p meth ps) =
     Inr (request_packet_make (packet_id p) (enum_from_json method_table (String meth))
            (packet_timing p) (packet_sync p) (packet_function p), ps)"
  using assms by (simp add: Request_FromBasePacket_def request_fields_def json_at_def [of "Object _"] get_to_u32_def)

lemma Deserialize_read:
  assumes "packet_method p = Method_MemoryRead"
  shows "JSON_DeserializeRequest (wire (memory_read_value p)) = Inr (Req_MemoryRead p)"
proof -
  have "Request_from_json_MemoryRead (memory_read_value p) = Inr p"
    using assms unfolding memory_read_value_def Request_from_json_MemoryRead_def
    by (subst FromBasePacket_fields) (simp_all add: json_at_def get_to_u64_def request_packet_make_def request_packet.defs memory_read.defs)
  moreover have "json_at (memory_read_value p) ''jsonrpc'' = Inr (String ''2.0'')"
    "json_at (memory_read_value p) ''method'' = Inr (String ''memory_read'')"
    by (simp_all add: memory_read_value_def request_fields_def json_at_def)
  ultimately show ?thesis
    by (simp add: JSON_DeserializeRequest_def wire_parses request_values_parsable)
qed

lemma Deserialize_write:
  assumes "packet_method p = Method_MemoryWrite" and "utf8_valid data" and "DecodeBase64 data = Inr bytes"
  shows "JSON_DeserializeRequest (wire (memory_write_value p data)) = Inr (Req_MemoryWrite (p\<lparr>write_data := bytes\<rparr>))"
proof -
  have "Request_from_json_MemoryWrite (memory_write_value p data) = Inr (p\<lparr>write_data := bytes\<rparr>)"
    using assms unfolding memory_write_value_def Request_from_json_MemoryWrite_def
    by (subst FromBasePacket_fields) (simp_all add: json_at_def get_to_u64_def get_to_string_def request_packet_make_def request_packet.defs memory_write.defs)
  moreover have "json_at (memory_write_value p data) ''jsonrpc'' = Inr (String ''2.0'')"
    "json_at (memory_write_value p data) ''method'' = Inr (String ''memory_write'')"
    by (simp_all add: memory_write_value_def request_fields_def json_at_def)
  ultimately show ?thesis
    by (simp add: JSON_DeserializeRequest_def wire_parses request_values_parsable assms(2))
qed

text \<open>What a request that left \<open>DeserializeRequest\<close> is known to be.\<close>

fun request_ok :: "request \<Rightarrow> bool" where
  "request_ok (Req_MemoryRead p) = (packet_method p = Method_MemoryRead)"
| "request_ok (Req_MemoryWrite p) = (packet_method p = Method_MemoryWrite)"
| "request_ok _ = False"

lemma FromBasePacket_method:
  assumes "Request_FromBasePacket j = Inr (b, ps)" and "json_at j ''method'' = Inr m"
  shows "packet_method b = enum_from_json method_table m"
  using assms by (auto simp: Request_FromBasePacket_def bindr_eq_Inr request_packet_make_def)

lemma Deserialize_ok:
  assumes "JSON_DeserializeRequest raw = Inr r"
  shows "request_ok r"
proof -
  obtain j m where j: "json_at j ''method'' = Inr m"
    and r: "(enum_from_json method_table m = Method_MemoryWrite \<and> (\<exists>a. r = Req_MemoryWrite a \<and> Request_from_json_MemoryWrite j = Inr a))
      \<or> (enum_from_json method_table m = Method_MemoryRead \<and> (\<exists>a. r = Req_MemoryRead a \<and> Request_from_json_MemoryRead j = Inr a))"
    using assms by (auto simp: JSON_DeserializeRequest_def bindr_eq_Inr Let_def split: if_splits)
  from r show ?thesis
    using FromBasePacket_method [OF _ j]
    by (auto simp: Request_from_json_MemoryWrite_def Request_from_json_MemoryRead_def bindr_eq_Inr
        request_packet.defs memory_write.defs memory_read.defs)
qed


section \<open>Properties\<close>

text \<open>
  C21: \<open>SerializeResponse\<close> of every response: the exact text, with the members in the order of
  their keys. An error response loses its error unless it is a memory read or write; a plain
  packet is written as \<open>null\<close>. The call throws only for an error message that is not
  well-formed UTF-8, and never prints a floating-point number.
\<close>

theorem SerializeResponse_result:
  "if message_ok packet then JSON_SerializeResponse dump_float packet = Inr (map byte_of_char (response_text packet))
   else \<exists>e. JSON_SerializeResponse dump_float packet = Inl e"
  using Serialize_ok Serialize_fails by simp

text \<open>
  C22: the text of a memory read request, with its members in any values, is deserialized to
  exactly that request.
\<close>

theorem DeserializeRequest_memory_read:
  assumes "packet_method p = Method_MemoryRead"
  shows "JSON_DeserializeRequest (wire (memory_read_value p)) = Inr (Req_MemoryRead p)"
  using assms by (rule Deserialize_read)

theorem DeserializeRequest_memory_read_witness:
  "JSON_DeserializeRequest (wire (memory_read_value (memory_read_make 7 FrameEnd Blocking Once 0x1000 16)))
     = Inr (Req_MemoryRead (memory_read_make 7 FrameEnd Blocking Once 0x1000 16))"
  by (rule DeserializeRequest_memory_read) simp

text \<open>
  C23: a memory write request whose data is encoded in base64 the standard way is deserialized to
  the request with one zero byte appended to the data for each padding character.
\<close>

theorem DeserializeRequest_memory_write:
  assumes "packet_method p = Method_MemoryWrite"
  shows "JSON_DeserializeRequest (wire (memory_write_value p (rfc4648_encode (write_data p))))
     = Inr (Req_MemoryWrite (p\<lparr>write_data := write_data p
         @ replicate ((3 - length (write_data p) mod 3) mod 3) 0\<rparr>))"
  using Deserialize_write [OF assms rfc4648_encode_utf8 dec_enc_result] .

theorem DeserializeRequest_memory_write_witness:
  "JSON_DeserializeRequest (wire (memory_write_value (memory_write_make 9 Immediate NonBlocking Once 0x20 [1])
       (rfc4648_encode [1])))
     = Inr (Req_MemoryWrite (memory_write_make 9 Immediate NonBlocking Once 0x20 [1, 0, 0]))"
  using DeserializeRequest_memory_write [of "memory_write_make 9 Immediate NonBlocking Once 0x20 [1]"]
  by (simp add: memory_write_make_def memory_write.defs request_packet.defs request_packet_make_def numeral_2_eq_2)

text \<open>
  C7: type safety of the wire: whatever bytes a client sends, \<open>DeserializeRequest\<close> throws or
  returns a memory read or a memory write whose \<open>method\<close> member agrees with the alternative
  held, so that the downcasts behind the method are sound.
\<close>

theorem DeserializeRequest_type_safe:
  "(\<exists>e. JSON_DeserializeRequest raw = Inl e) \<or> (\<exists>r. JSON_DeserializeRequest raw = Inr r \<and> request_ok r)"
  using Deserialize_ok [of raw] by (cases "JSON_DeserializeRequest raw") auto

text \<open>
  C24: which requests are refused: any other protocol version, and any method but
  \<open>memory_read\<close> and \<open>memory_write\<close>, including the commands the protocol documents.
\<close>

theorem DeserializeRequest_refuses:
  assumes "json_parse (map char_of_byte raw) = Inr j"
    and "json_at j ''jsonrpc'' = Inr v" and "json_at j ''method'' = Inr m"
  shows "(v \<noteq> String ''2.0'' \<longrightarrow>
      JSON_DeserializeRequest raw = Inl (version_mismatch_error ''Version mismatch.''))
    \<and> (v = String ''2.0'' \<and> m \<noteq> String ''memory_read'' \<and> m \<noteq> String ''memory_write'' \<longrightarrow>
      JSON_DeserializeRequest raw = Inl (invalid_method_error ''Invalid method''))"
  using assms by (auto simp: JSON_DeserializeRequest_def Let_def method_from_json)

theorem DeserializeRequest_refuses_witness:
  "JSON_DeserializeRequest (wire (Object [(''jsonrpc'', String ''2.0''), (''method'', String ''command'')]))
     = Inl (invalid_method_error ''Invalid method'')"
proof -
  let ?j = "Object [(''jsonrpc'', String ''2.0''), (''method'', String ''command'')]"
  have "parsable ?j" by code_simp
  from DeserializeRequest_refuses [OF wire_parses [OF this], of "String ''2.0''" "String ''command''"]
  show ?thesis by (simp add: json_at_def)
qed

text \<open>
  the text of an enumerator is read back as that enumerator, for each of the five
  enumerations of the protocol.
\<close>

theorem enum_text_roundtrip:
  "enum_from_json timing_table (enum_to_json timing_table t) = t
   \<and> enum_from_json method_table (enum_to_json method_table m) = m
   \<and> enum_from_json sync_table (enum_to_json sync_table s) = s
   \<and> enum_from_json function_table (enum_to_json function_table f) = f
   \<and> enum_from_json command_type_table (enum_to_json command_type_table c) = c"
  by simp



text \<open>
  C38: \<open>to_json\<close> of a memory request writes the data, the address and the length into a copy of
  \<open>params\<close>: the result is the same for all of them, and \<open>from_json\<close> refuses it.
\<close>

theorem Request_to_json_loses_params:
  "Request_to_json_MemoryWrite p = Inr (Request_ToBasePacket p)
   \<and> (\<exists>w. Request_from_json_MemoryWrite (Request_ToBasePacket p) = Inl (json_exc (out_of_range 403 w)))
   \<and> Request_to_json_MemoryRead q = Inr (Request_ToBasePacket q)
   \<and> (\<exists>w. Request_from_json_MemoryRead (Request_ToBasePacket q) = Inl (json_exc (out_of_range 403 w)))"
proof -
  have base: "\<exists>b ps. Request_FromBasePacket (Request_ToBasePacket r) = Inr (b, Object ps)
     \<and> map_of ps ''data'' = None \<and> map_of ps ''address'' = None" for r :: "'b request_packet_scheme"
    by (simp add: Request_FromBasePacket_def Request_ToBasePacket_eq json_at_def get_to_u32_def)
  obtain b ps where "Request_FromBasePacket (Request_ToBasePacket p) = Inr (b, Object ps)" "map_of ps ''data'' = None"
    using base [of p] by blast
  moreover obtain c qs where "Request_FromBasePacket (Request_ToBasePacket q) = Inr (c, Object qs)" "map_of qs ''address'' = None"
    using base [of q] by blast
  ultimately show ?thesis
    by (simp add: Request_to_json_MemoryWrite_def Request_to_json_MemoryRead_def Request_ToBasePacket_eq
        subscript_get_def subscript_set_def subscript_def map_emplace_def enc_result Request_from_json_MemoryWrite_def
        Request_from_json_MemoryRead_def json_at_def out_of_range_create_def)
qed

end
