(* ===== verification/Spsc_Queue.thy ===== *)
theory Spsc_Queue
  imports Prelude
begin

text \<open>
  The queues between the threads: \<^verbatim>\<open>src/externals/boost/boost/lockfree/spsc_queue.hpp\<close>
  (\<open>ringbuffer_base\<close>, \<open>compile_time_sized_ringbuffer\<close> and the calls of \<open>spsc_queue\<close> the
  program makes). An operation is one atomic step, which the queue's contract of one
  producer and one consumer gives. A slot of the storage is \<^term>\<open>None\<close> while it holds no
  object. The ring buffer is shown to refine a bounded first-in first-out list, stated as
  the locale \<open>bounded_queue\<close>.
\<close>

section \<open>The ring buffer\<close>

record 'a ringbuffer =
  write_idx :: nat
  read_idx :: nat
  storage :: "'a option list"

abbreviation max_size :: "'a ringbuffer \<Rightarrow> nat" where
  "max_size rb \<equiv> length (storage rb)"

text \<open>\<open>compile_time_sized_ringbuffer<T, MaxSize>\<close> allocates one slot more than \<open>MaxSize\<close>.\<close>

definition ringbuffer_init :: "nat \<Rightarrow> 'a ringbuffer" where
  "ringbuffer_init capacity =
     \<lparr>write_idx = 0, read_idx = 0, storage = replicate (capacity + 1) None\<rparr>"

fun subtract_while :: "nat \<Rightarrow> nat \<Rightarrow> nat" where
  "subtract_while ret msize = (if msize = 0 \<or> ret < msize then ret else subtract_while (ret - msize) msize)"

declare subtract_while.simps [simp del]

definition next_index :: "nat \<Rightarrow> nat \<Rightarrow> nat" where
  "next_index arg msize = subtract_while (arg + 1) msize"

definition read_available :: "nat \<Rightarrow> nat \<Rightarrow> nat \<Rightarrow> nat" where
  "read_available write_index read_index msize =
     (if read_index \<le> write_index then write_index - read_index else write_index + msize - read_index)"

text \<open>The subtraction wraps around when the writer is not behind the reader.\<close>

definition write_available :: "nat \<Rightarrow> nat \<Rightarrow> nat \<Rightarrow> nat" where
  "write_available write_index read_index msize =
     (let ret = (int read_index - int write_index - 1) mod 2 ^ 64
      in nat (if read_index \<le> write_index then (ret + int msize) mod 2 ^ 64 else ret))"

definition ringbuffer_read_available :: "'a ringbuffer \<Rightarrow> nat" where
  "ringbuffer_read_available rb = read_available (write_idx rb) (read_idx rb) (max_size rb)"

definition ringbuffer_write_available :: "'a ringbuffer \<Rightarrow> nat" where
  "ringbuffer_write_available rb = write_available (write_idx rb) (read_idx rb) (max_size rb)"

definition ringbuffer_empty :: "'a ringbuffer \<Rightarrow> bool" where
  "ringbuffer_empty rb \<longleftrightarrow> write_idx rb = read_idx rb"

definition push :: "'a \<Rightarrow> 'a ringbuffer \<Rightarrow> bool \<times> 'a ringbuffer" where
  "push t rb =
     (let write_index = write_idx rb; next = next_index write_index (max_size rb)
      in if next = read_idx rb then (False, rb)
         else (True, rb\<lparr>storage := (storage rb)[write_index := Some t], write_idx := next\<rparr>))"

text \<open>\<open>std::uninitialized_copy\<close> to consecutive slots.\<close>

fun copy_to :: "nat \<Rightarrow> 'a list \<Rightarrow> 'a option list \<Rightarrow> 'a option list" where
  "copy_to i [] st = st"
| "copy_to i (x # xs) st = copy_to (i + 1) xs (st[i := Some x])"

text \<open>
  Pushing a range, in at most two sections. The result is the part of the range that was
  not pushed.
\<close>

definition push_range :: "'a list \<Rightarrow> 'a ringbuffer \<Rightarrow> 'a list \<times> 'a ringbuffer" where
  "push_range xs rb =
     (let write_index = write_idx rb;
          avail = write_available write_index (read_idx rb) (max_size rb)
      in if avail = 0 then (xs, rb)
         else
           let input_count = min (length xs) avail;
               new_write_index = write_index + input_count
           in if max_size rb < write_index + input_count then
                let count0 = max_size rb - write_index
                in (drop input_count xs,
                    rb\<lparr>storage := copy_to 0 (drop count0 (take input_count xs))
                                    (copy_to write_index (take count0 xs) (storage rb)),
                       write_idx := new_write_index - max_size rb\<rparr>)
              else
                (drop input_count xs,
                 rb\<lparr>storage := copy_to write_index (take input_count xs) (storage rb),
                    write_idx := (if new_write_index = max_size rb then 0 else new_write_index)\<rparr>))"

text \<open>
  \<open>consume_one\<close>; the functor acts on a state of its caller, and the slot is destroyed after
  it returns.
\<close>

definition consume_one :: "('a \<Rightarrow> 's \<Rightarrow> 's) \<Rightarrow> 'a ringbuffer \<Rightarrow> 's \<Rightarrow> bool \<times> 'a ringbuffer \<times> 's" where
  "consume_one functor rb s =
     (if ringbuffer_empty rb then (False, rb, s)
      else
        let read_index = read_idx rb
        in (True,
            rb\<lparr>storage := (storage rb)[read_index := None],
               read_idx := next_index read_index (max_size rb)\<rparr>,
            functor (the (storage rb ! read_index)) s))"

text \<open>\<open>run_functor_and_delete\<close> over the slots from \<open>first\<close> to before \<open>stop\<close>.\<close>

definition run_functor_and_delete ::
    "nat \<Rightarrow> nat \<Rightarrow> ('a \<Rightarrow> 's \<Rightarrow> 's) \<Rightarrow> 'a option list \<times> 's \<Rightarrow> 'a option list \<times> 's" where
  "run_functor_and_delete first stop functor =
     fold (\<lambda>i (st, s). (st[i := None], functor (the (st ! i)) s)) [first..<stop]"

text \<open>
  The part \<open>consume_all\<close>, \<open>pop\<close> and \<open>pop_to_output_iterator\<close> have in common: \<open>count\<close>
  elements are taken in at most two sections and the read index is advanced.
\<close>

definition take_sections ::
    "nat \<Rightarrow> ('a \<Rightarrow> 's \<Rightarrow> 's) \<Rightarrow> 'a ringbuffer \<Rightarrow> 's \<Rightarrow> 'a ringbuffer \<times> 's" where
  "take_sections count functor rb s =
     (let read_index = read_idx rb; new_read_index = read_index + count
      in if max_size rb < read_index + count then
           let count0 = max_size rb - read_index; count1 = count - count0;
               (st, s') = run_functor_and_delete 0 count1 functor
                            (run_functor_and_delete read_index (max_size rb) functor (storage rb, s))
           in (rb\<lparr>storage := st, read_idx := new_read_index - max_size rb\<rparr>, s')
         else
           let (st, s') = run_functor_and_delete read_index (read_index + count) functor (storage rb, s)
           in (rb\<lparr>storage := st,
                  read_idx := (if new_read_index = max_size rb then 0 else new_read_index)\<rparr>, s'))"

definition consume_all :: "('a \<Rightarrow> 's \<Rightarrow> 's) \<Rightarrow> 'a ringbuffer \<Rightarrow> 's \<Rightarrow> nat \<times> 'a ringbuffer \<times> 's" where
  "consume_all functor rb s =
     (let avail = read_available (write_idx rb) (read_idx rb) (max_size rb)
      in if avail = 0 then (0, rb, s)
         else (avail, take_sections avail functor rb s))"

text \<open>\<open>copy_and_delete\<close> appends to the output and destroys the slot.\<close>

definition copy_and_delete :: "'a \<Rightarrow> 'a list \<Rightarrow> 'a list" where
  "copy_and_delete x out = out @ [x]"

definition pop_n :: "nat \<Rightarrow> 'a ringbuffer \<Rightarrow> 'a list \<times> 'a ringbuffer" where
  "pop_n output_count rb =
     (let avail = read_available (write_idx rb) (read_idx rb) (max_size rb)
      in if avail = 0 then ([], rb)
         else let (rb', out) = take_sections (min output_count avail) copy_and_delete rb [] in (out, rb'))"

definition pop_to_output_iterator :: "'a ringbuffer \<Rightarrow> 'a list \<times> 'a ringbuffer" where
  "pop_to_output_iterator rb =
     (let avail = read_available (write_idx rb) (read_idx rb) (max_size rb)
      in if avail = 0 then ([], rb)
         else let (rb', out) = take_sections avail copy_and_delete rb [] in (out, rb'))"

text \<open>\<open>spsc_queue::pop(U & ret)\<close>: one element, or nothing.\<close>

definition pop :: "'a ringbuffer \<Rightarrow> 'a option \<times> 'a ringbuffer" where
  "pop rb = (let (_, rb', ret) = consume_one (\<lambda>x _. Some x) rb None in (ret, rb'))"

definition front :: "'a ringbuffer \<Rightarrow> 'a option" where
  "front rb = storage rb ! read_idx rb"

section \<open>Indices\<close>

lemma subtract_while_mod: "0 < msize \<Longrightarrow> subtract_while n msize = n mod msize"
proof (induction n msize rule: subtract_while.induct)
  case (1 n msize)
  then show ?case
    by (subst subtract_while.simps) (auto simp: le_mod_geq)
qed

lemma next_index_mod: "0 < msize \<Longrightarrow> next_index i msize = (i + 1) mod msize"
  by (simp add: next_index_def subtract_while_mod)

lemma mod_add_inject:
  assumes "i < m" "j < m" and "(r + i) mod m = (r + j) mod (m :: nat)"
  shows "i = j"
proof -
  have "k \<le> l \<Longrightarrow> l < m \<Longrightarrow> (r + k) mod m = (r + l) mod m \<Longrightarrow> k = l" for k l
    using mod_eq_dvd_iff_nat [of "r + k" "r + l" m] dvd_imp_le [of m "l - k"] by fastforce
  with assms show ?thesis by (metis nat_le_linear)
qed

lemma read_available_mod:
  assumes "k < m" "r < m"
  shows "read_available ((r + k) mod m) r m = k"
  using assms by (cases "r + k < m") (auto simp: read_available_def le_mod_geq not_less)

lemma read_available_add:
  assumes "r < m" "w < m"
  shows "w = (r + read_available w r m) mod m" and "read_available w r m < m"
  using assms by (auto simp: read_available_def le_mod_geq)

lemma write_available_eq:
  assumes "r < m" "w < m" "m < 2 ^ 64"
  shows "write_available w r m = m - 1 - read_available w r m"
proof (cases "r \<le> w")
  case True
  have "((int r - int w - 1) mod 2 ^ 64 + int m) mod 2 ^ 64 = (int r - int w - 1 + int m) mod 2 ^ 64"
    by (rule mod_add_left_eq)
  also have "\<dots> = int r - int w - 1 + int m"
    using assms True by (intro mod_pos_pos_trivial) simp_all
  finally show ?thesis
    using True assms by (simp add: write_available_def read_available_def)
next
  case False
  with assms show ?thesis
    by (simp add: write_available_def read_available_def)
qed

section \<open>Representation of a list\<close>

abbreviation slot :: "'a ringbuffer \<Rightarrow> nat \<Rightarrow> nat" where
  "slot rb i \<equiv> (read_idx rb + i) mod max_size rb"

text \<open>
  A ring buffer represents \<open>xs\<close> when the slots from the read index on hold the elements of
  \<open>xs\<close> in order and every other slot holds no object.
\<close>

definition represents :: "'a ringbuffer \<Rightarrow> 'a list \<Rightarrow> bool" where
  "represents rb xs \<longleftrightarrow>
     read_idx rb < max_size rb \<and> length xs < max_size rb
     \<and> write_idx rb = (read_idx rb + length xs) mod max_size rb
     \<and> (\<forall>i < max_size rb. storage rb ! slot rb i = (if i < length xs then Some (xs ! i) else None))"

definition contents :: "'a ringbuffer \<Rightarrow> 'a list" where
  "contents rb =
     map (\<lambda>i. the (storage rb ! slot rb i)) [0..<ringbuffer_read_available rb]"

definition ringbuffer_ok :: "'a ringbuffer \<Rightarrow> bool" where
  "ringbuffer_ok rb \<longleftrightarrow> represents rb (contents rb)"

lemma represents_available:
  "represents rb xs \<Longrightarrow> ringbuffer_read_available rb = length xs"
  by (simp add: represents_def ringbuffer_read_available_def read_available_mod)

lemma represents_contents: "represents rb xs \<Longrightarrow> contents rb = xs"
  by (rule nth_equalityI)
    (simp_all add: contents_def represents_available, simp add: represents_def)

lemma represents_ok: "represents rb xs \<Longrightarrow> ringbuffer_ok rb"
  by (simp add: ringbuffer_ok_def represents_contents)

lemma represents_iff: "represents rb xs \<longleftrightarrow> ringbuffer_ok rb \<and> contents rb = xs"
  using represents_ok represents_contents by (auto simp: ringbuffer_ok_def)

lemma slot_inject: "represents rb xs \<Longrightarrow> i < max_size rb \<Longrightarrow> j < max_size rb \<Longrightarrow> slot rb i = slot rb j \<longleftrightarrow> i = j"
  using mod_add_inject by blast

lemma represents_init: "represents (ringbuffer_init n) []"
  by (simp add: represents_def ringbuffer_init_def del: replicate_Suc)

lemma represents_empty: "represents rb xs \<Longrightarrow> ringbuffer_empty rb \<longleftrightarrow> xs = []"
  using mod_add_inject [of "length xs" "max_size rb" 0 "read_idx rb"] le_less_trans
  by (fastforce simp: represents_def ringbuffer_empty_def)

lemma represents_push:
  assumes "represents rb xs"
  shows "\<exists>rb'. push t rb = (length xs + 1 < max_size rb, rb') \<and> max_size rb' = max_size rb
     \<and> represents rb' (if length xs + 1 < max_size rb then xs @ [t] else xs)"
proof -
  let ?m = "max_size rb" and ?n = "length xs"
  have m: "0 < ?m" "?n < ?m" "read_idx rb < ?m" using assms by (auto simp: represents_def)
  have w: "write_idx rb = slot rb ?n" using assms by (simp add: represents_def)
  have next_idx: "next_index (write_idx rb) ?m = (read_idx rb + (?n + 1)) mod ?m"
    using m by (simp add: next_index_mod w mod_simps)
  show ?thesis
  proof (cases "?n + 1 < ?m")
    case True
    have free: "next_index (write_idx rb) ?m \<noteq> read_idx rb"
      using mod_add_inject [of "?n + 1" ?m 0 "read_idx rb"] True m next_idx by auto
    let ?rb = "rb\<lparr>storage := (storage rb)[write_idx rb := Some t], write_idx := (read_idx rb + (?n + 1)) mod ?m\<rparr>"
    have "represents ?rb (xs @ [t])"
      using assms True m slot_inject [OF assms]
      by (auto simp: represents_def w nth_list_update nth_append less_Suc_eq)
    with True free next_idx show ?thesis by (auto simp: push_def Let_def)
  next
    case False
    with m have "?n + 1 = ?m" by simp
    then have "next_index (write_idx rb) ?m = read_idx rb" using m next_idx by simp
    with False assms show ?thesis by (simp add: push_def Let_def)
  qed
qed

lemma section_indices:
  assumes "r < m" "n \<le> m"
  shows "map (\<lambda>i. (r + i) mod m) [0..<n] = (if m < r + n then [r..<m] @ [0..<n - (m - r)] else [r..<r + n])"
  using assms
  by (intro nth_equalityI) (auto simp: nth_append le_mod_geq not_less)

lemma fold_delete:
  assumes "distinct is" "\<forall>i \<in> set is. i < length st"
  shows "fold (\<lambda>i (st, s). (st[i := None], f (the (st ! i)) s)) is (st, s)
     = (fold (\<lambda>i st. st[i := None]) is st, fold f (map (\<lambda>i. the (st ! i)) is) s)"
  using assms
proof (induction "is" arbitrary: st s)
  case (Cons i "is")
  have "map (\<lambda>j. the (st[i := None] ! j)) is = map (\<lambda>j. the (st ! j)) is"
    using Cons.prems by (auto simp: nth_list_update)
  with Cons show ?case by (simp del: map_eq_conv)
qed simp

lemma fold_delete_nth:
  "j < length st \<Longrightarrow> fold (\<lambda>i st. st[i := None]) is st ! j = (if j \<in> set is then None else st ! j)"
  by (induction "is" arbitrary: st) (auto simp: nth_list_update)

lemma fold_delete_length [simp]: "length (fold (\<lambda>i st. st[i := None]) is st) = length st"
  by (induction "is" arbitrary: st) auto

lemma represents_take:
  assumes "represents rb xs" "n \<le> length xs"
  shows "\<exists>rb'. take_sections n f rb s = (rb', fold f (take n xs) s) \<and> max_size rb' = max_size rb
     \<and> represents rb' (drop n xs)"
proof -
  let ?m = "max_size rb" and ?r = "read_idx rb" and ?is = "map (slot rb) [0..<n]"
  let ?st = "fold (\<lambda>i st. st[i := None]) ?is (storage rb)"
  let ?rb = "rb\<lparr>storage := ?st, read_idx := (?r + n) mod ?m\<rparr>"
  have m: "?r < ?m" "length xs < ?m" "n < ?m" "0 < ?m" using assms by (auto simp: represents_def)
  have "distinct ?is"
    unfolding distinct_map inj_on_def
    using m by (auto intro: mod_add_inject [where m = ?m and r = ?r])
  then have run: "fold (\<lambda>i (st, s). (st[i := None], f (the (st ! i)) s)) ?is (storage rb, s)
      = (?st, fold f (take n xs) s)"
    using m assms(2) assms(1)
    by (subst fold_delete) (auto simp: represents_def comp_def take_map [symmetric] intro!: arg_cong [where f = "\<lambda>l. fold f l s"] nth_equalityI)
  have take: "take_sections n f rb s = (?rb, fold f (take n xs) s)"
    using run m section_indices [of ?r ?m n]
    by (auto simp: take_sections_def run_functor_and_delete_def Let_def le_mod_geq fold_append split: prod.splits if_splits)
  have "?st ! ((?r + n + i) mod ?m) = (if i < length xs - n then Some (xs ! (n + i)) else None)"
    if "i < ?m" for i
  proof (cases "n + i < ?m")
    case True
    then have "slot rb (n + i) \<notin> set ?is"
      using m by (auto dest!: mod_add_inject [where m = ?m and r = ?r, rotated 2])
    then show ?thesis
      using assms(1) True m by (auto simp: fold_delete_nth represents_def add.assoc)
  next
    case False
    then obtain k where k: "n + i = ?m + k" by (metis le_iff_add not_less)
    then have "(?r + n + i) mod ?m = slot rb k" "k < n"
      using m that by (simp_all add: add.assoc [of _ n i] add.left_commute [of _ ?m])
    then have "(?r + n + i) mod ?m \<in> set ?is" by simp
    with False m show ?thesis by (simp add: fold_delete_nth)
  qed
  moreover have "((?r + n) mod ?m + (length xs - n)) mod ?m = (?r + length xs) mod ?m"
    using assms(2) by (simp only: mod_add_left_eq) simp
  moreover have "((?r + n) mod ?m + i) mod ?m = (?r + n + i) mod ?m" for i
    by (rule mod_add_left_eq)
  ultimately have "represents ?rb (drop n xs)"
    using m assms by (simp add: represents_def)
  with take show ?thesis by auto
qed

lemma copy_to_length [simp]: "length (copy_to i xs st) = length st"
  by (induction i xs st rule: copy_to.induct) auto

lemma copy_to_nth:
  "i + length xs \<le> length st \<Longrightarrow> j < length st \<Longrightarrow>
     copy_to i xs st ! j = (if i \<le> j \<and> j < i + length xs then Some (xs ! (j - i)) else st ! j)"
  by (induction i xs st rule: copy_to.induct)
    (auto simp: nth_list_update nth_Cons' not_less_eq_eq Suc_diff_le)

lemma fold_copy_and_delete: "fold copy_and_delete xs out = out @ xs"
  by (induction xs arbitrary: out) (simp_all add: copy_and_delete_def)

lemma represents_consume_all:
  assumes "represents rb xs"
  shows "\<exists>rb'. consume_all f rb s = (length xs, rb', fold f xs s) \<and> max_size rb' = max_size rb
     \<and> represents rb' []"
  using assms represents_take [OF assms, of "length xs" f s] represents_available [OF assms]
  by (auto simp: consume_all_def ringbuffer_read_available_def Let_def)

lemma represents_pop_n:
  assumes "represents rb xs"
  shows "\<exists>rb'. pop_n k rb = (take k xs, rb') \<and> max_size rb' = max_size rb \<and> represents rb' (drop k xs)"
proof (cases "xs = []")
  case True
  then show ?thesis
    using assms represents_available [OF assms] by (simp add: pop_n_def ringbuffer_read_available_def)
next
  case False
  have "take (min k (length xs)) xs = take k xs" "drop (min k (length xs)) xs = drop k xs"
    by (auto simp: min_def)
  with False represents_take [OF assms, of "min k (length xs)" copy_and_delete "[]"] represents_available [OF assms]
  show ?thesis
    by (auto simp: pop_n_def ringbuffer_read_available_def Let_def fold_copy_and_delete)
qed

lemma represents_pop_to_output_iterator:
  assumes "represents rb xs"
  shows "\<exists>rb'. pop_to_output_iterator rb = (xs, rb') \<and> max_size rb' = max_size rb \<and> represents rb' []"
  using assms represents_take [OF assms, of "length xs" copy_and_delete "[]"] represents_available [OF assms]
  by (auto simp: pop_to_output_iterator_def ringbuffer_read_available_def Let_def fold_copy_and_delete)

lemma represents_consume_one:
  assumes "represents rb (x # xs)"
  shows "\<exists>rb'. consume_one f rb s = (True, rb', f x s) \<and> max_size rb' = max_size rb \<and> represents rb' xs"
proof -
  have m: "0 < max_size rb" "read_idx rb < max_size rb" "1 + length xs < max_size rb"
    using assms by (auto simp: represents_def)
  have x: "storage rb ! read_idx rb = Some x"
    using assms m by (force simp: represents_def dest: spec [of _ 0])
  have ne: "\<not> ringbuffer_empty rb" using represents_empty [OF assms] by simp
  obtain rb' where rb': "take_sections 1 f rb s = (rb', f x s)" "max_size rb' = max_size rb" "represents rb' xs"
    using represents_take [OF assms, of 1 f s] by auto
  have "rb' = rb\<lparr>storage := (storage rb)[read_idx rb := None],
      read_idx := next_index (read_idx rb) (max_size rb)\<rparr>"
    using rb'(1) m
    by (auto simp: take_sections_def run_functor_and_delete_def next_index_mod Let_def)
  with rb' x ne show ?thesis by (simp add: consume_one_def Let_def)
qed

lemma represents_pop:
  assumes "represents rb xs"
  shows "\<exists>rb'. pop rb = ((case xs of [] \<Rightarrow> None | x # _ \<Rightarrow> Some x), rb') \<and> max_size rb' = max_size rb
     \<and> represents rb' (tl xs)"
proof (cases xs)
  case Nil
  then show ?thesis
    using assms represents_empty [OF assms] by (simp add: pop_def consume_one_def)
next
  case (Cons x ys)
  then show ?thesis
    using assms represents_consume_one [of rb x ys "\<lambda>x _. Some x" None] by (auto simp: pop_def)
qed

lemma copy_sections_nth:
  assumes "w < length st" "length zs \<le> length st" "d < length st"
    and new: "new = (if length st < w + length zs
        then copy_to 0 (drop (length st - w) zs) (copy_to w (take (length st - w) zs) st)
        else copy_to w zs st)"
  shows "new ! ((w + d) mod length st) = (if d < length zs then Some (zs ! d) else st ! ((w + d) mod length st))"
proof (cases "w + d < length st")
  case True
  then show ?thesis
    using assms by (auto simp: copy_to_nth min_def)
next
  case False
  then have p: "(w + d) mod length st = w + d - length st" "w + d - length st < w"
    using assms by (simp_all add: le_mod_geq)
  have "length st - w + (w + d - length st) = d" using False assms(1) by simp
  then show ?thesis
    using False assms p by (auto simp: copy_to_nth min_def)
qed

lemma represents_push_range:
  fixes ys :: "'a list"
  assumes "represents rb xs" "max_size rb < 2 ^ 64"
    and k_def: "k = min (length ys) (max_size rb - 1 - length xs)"
  shows "\<exists>rb'. push_range ys rb = (drop k ys, rb') \<and> max_size rb' = max_size rb
     \<and> represents rb' (xs @ take k ys)"
proof -
  let ?m = "max_size rb" and ?w = "write_idx rb" and ?n = "length xs" and ?zs = "take k ys"
  have pos: "0 < ?m" and w: "?w = (read_idx rb + ?n) mod ?m"
    using assms by (auto simp: represents_def)
  have m: "read_idx rb < ?m" "?w < ?m" "?n + k < ?m" "length ?zs = k" "k \<le> length ys"
    using assms pos w by (auto simp: represents_def)
  have avail: "write_available ?w (read_idx rb) ?m = ?m - 1 - ?n"
    using write_available_eq [of "read_idx rb" ?m ?w] assms(2) m represents_available [OF assms(1)]
    by (simp add: ringbuffer_read_available_def)
  define new where "new = (if ?m < ?w + length ?zs
        then copy_to 0 (drop (?m - ?w) ?zs) (copy_to ?w (take (?m - ?w) ?zs) (storage rb))
        else copy_to ?w ?zs (storage rb))"
  let ?rb = "rb\<lparr>storage := new, write_idx := (?w + k) mod ?m\<rparr>"
  have len: "length new = ?m" by (simp add: new_def)
  have nth: "d < ?m \<Longrightarrow> new ! ((?w + d) mod ?m) = (if d < k then Some (ys ! d) else storage rb ! ((?w + d) mod ?m))" for d
    using copy_sections_nth [of ?w "storage rb" ?zs d new] m new_def by simp
  have "new ! slot rb i = (if i < ?n + k then Some ((xs @ ?zs) ! i) else None)" if "i < ?m" for i
  proof (cases "?n \<le> i")
    case True
    then have "slot rb i = (?w + (i - ?n)) mod ?m" by (simp only: w mod_add_left_eq) simp
    then show ?thesis
      using nth [of "i - ?n"] True that assms(1) m by (auto simp: represents_def nth_append)
  next
    case False
    have "(?w + (?m - ?n + i)) mod ?m = (read_idx rb + i + ?m) mod ?m"
      using m by (simp only: w mod_add_left_eq) (simp add: ac_simps)
    then have "(?w + (?m - ?n + i)) mod ?m = slot rb i" by simp
    then show ?thesis
      using nth [of "?m - ?n + i"] False that assms(1) m by (auto simp: represents_def nth_append)
  qed
  then have "represents ?rb (xs @ ?zs)"
    using m len by (simp add: represents_def w mod_simps add.assoc)
  have kk: "min (length ys) (?m - Suc ?n) = k" by (simp add: k_def)
  have "take (?m - ?w) (take k ys) = take (?m - ?w) ys" if "?m < ?w + k" using that by (simp add: min_def)
  moreover have "drop k ys = ys" if "?m \<le> Suc ?n"
  proof -
    have "k = 0" using that m(3) by linarith
    then show ?thesis by simp
  qed
  ultimately have "push_range ys rb = (drop k ys, if ?m - 1 - ?n = 0 then rb else ?rb)"
    using m pos kk by (cases "?m \<le> Suc ?n") (auto simp: push_range_def avail Let_def new_def le_mod_geq kk)
  with \<open>represents ?rb (xs @ ?zs)\<close> show ?thesis using len assms(1) k_def by auto
qed

section \<open>The bounded queue interface\<close>

text \<open>
  What a client may rely on: a first-in first-out list of bounded length, to which a failing
  \<open>enqueue\<close> adds nothing.
\<close>

locale bounded_queue =
  fixes cont :: "'q \<Rightarrow> 'a list"
    and ok :: "'q \<Rightarrow> bool"
    and cap :: "'q \<Rightarrow> nat"
    and enqueue :: "'a \<Rightarrow> 'q \<Rightarrow> bool \<times> 'q"
    and dequeue :: "'q \<Rightarrow> 'a option \<times> 'q"
    and drain :: "'q \<Rightarrow> 'a list \<times> 'q"
  assumes enqueue_spec: "ok q \<Longrightarrow> enqueue x q = (b, q') \<Longrightarrow>
      ok q' \<and> cap q' = cap q \<and> b = (length (cont q) < cap q) \<and> cont q' = (if b then cont q @ [x] else cont q)"
    and dequeue_spec: "ok q \<Longrightarrow> dequeue q = (r, q') \<Longrightarrow>
      ok q' \<and> cap q' = cap q \<and> r = (case cont q of [] \<Rightarrow> None | x # _ \<Rightarrow> Some x) \<and> cont q' = tl (cont q)"
    and drain_spec: "ok q \<Longrightarrow> drain q = (xs, q') \<Longrightarrow>
      ok q' \<and> cap q' = cap q \<and> xs = cont q \<and> cont q' = []"
    and bound: "ok q \<Longrightarrow> length (cont q) \<le> cap q"

text \<open>
  A history of a queue: the elements whose \<open>enqueue\<close> succeeded and the elements handed out,
  both in order.
\<close>

datatype 'a queue_event = Enqueue 'a | Dequeue | Drain

fun queue_run ::
    "('a \<Rightarrow> 'q \<Rightarrow> bool \<times> 'q) \<Rightarrow> ('q \<Rightarrow> 'a option \<times> 'q) \<Rightarrow> ('q \<Rightarrow> 'a list \<times> 'q)
       \<Rightarrow> 'a queue_event list \<Rightarrow> 'q \<Rightarrow> 'a list \<times> 'a list \<times> 'q" where
  "queue_run enq deq drn [] q = ([], [], q)"
| "queue_run enq deq drn (Enqueue x # es) q =
     (let (b, q1) = enq x q; (acc, del, q2) = queue_run enq deq drn es q1
      in ((if b then [x] else []) @ acc, del, q2))"
| "queue_run enq deq drn (Dequeue # es) q =
     (let (r, q1) = deq q; (acc, del, q2) = queue_run enq deq drn es q1
      in (acc, (case r of None \<Rightarrow> [] | Some x \<Rightarrow> [x]) @ del, q2))"
| "queue_run enq deq drn (Drain # es) q =
     (let (xs, q1) = drn q; (acc, del, q2) = queue_run enq deq drn es q1
      in (acc, xs @ del, q2))"

context bounded_queue
begin

lemma run_fifo:
  assumes "ok q" "queue_run enqueue dequeue drain es q = (acc, del, q')"
  shows "ok q' \<and> cap q' = cap q \<and> cont q @ acc = del @ cont q'"
  using assms
proof (induction es arbitrary: q acc del)
  case (Cons e es)
  show ?case
  proof (cases e)
    case (Enqueue x)
    obtain b q1 where 1: "enqueue x q = (b, q1)" by fastforce
    obtain acc' where 2: "queue_run enqueue dequeue drain es q1 = (acc', del, q')"
      "acc = (if b then [x] else []) @ acc'"
      using Cons.prems(2) 1 Enqueue by (auto split: prod.splits)
    from enqueue_spec [OF Cons.prems(1) 1] Cons.IH [OF _ 2(1)] 2(2) show ?thesis by auto
  next
    case Dequeue
    obtain r q1 where 1: "dequeue q = (r, q1)" by fastforce
    obtain del' where 2: "queue_run enqueue dequeue drain es q1 = (acc, del', q')"
      "del = (case r of None \<Rightarrow> [] | Some x \<Rightarrow> [x]) @ del'"
      using Cons.prems(2) 1 Dequeue by (auto split: prod.splits)
    from dequeue_spec [OF Cons.prems(1) 1] Cons.IH [OF _ 2(1)] 2(2) show ?thesis
      by (cases "cont q") auto
  next
    case Drain
    obtain xs q1 where 1: "drain q = (xs, q1)" by fastforce
    obtain del' where 2: "queue_run enqueue dequeue drain es q1 = (acc, del', q')" "del = xs @ del'"
      using Cons.prems(2) 1 Drain by (auto split: prod.splits)
    from drain_spec [OF Cons.prems(1) 1] Cons.IH [OF _ 2(1)] 2(2) show ?thesis by auto
  qed
qed simp

lemma dequeue_decreases:
  "ok q \<Longrightarrow> dequeue q = (Some x, q') \<Longrightarrow> length (cont q') < length (cont q)"
  using dequeue_spec by (cases "cont q") fastforce+

lemma dequeue_stops: "ok q \<Longrightarrow> dequeue q = (None, q') \<Longrightarrow> cont q = [] \<and> cont q' = []"
  using dequeue_spec by (cases "cont q") fastforce+

end

text \<open>
  A loop that takes elements from a queue inside a larger state and handles them until the
  queue is empty. The handler may throw, and leaves the queue alone; \<^term>\<open>None\<close> would be a
  loop that does not end.
\<close>

fun handle_each :: "('a \<Rightarrow> 's \<Rightarrow> 'e + 's) \<Rightarrow> 'a list \<Rightarrow> 's \<Rightarrow> 'e + 's" where
  "handle_each h [] st = Inr st"
| "handle_each h (x # xs) st = bindr (h x st) (handle_each h xs)"

lemma handle_each_Nil [simp]: "handle_each h [] = Inr"
  by (simp add: fun_eq_iff)

locale queue_worker = bounded_queue cont ok cap enqueue dequeue drain
  for cont :: "'q \<Rightarrow> 'a list" and ok :: "'q \<Rightarrow> bool" and cap :: "'q \<Rightarrow> nat"
    and enqueue :: "'a \<Rightarrow> 'q \<Rightarrow> bool \<times> 'q" and dequeue :: "'q \<Rightarrow> 'a option \<times> 'q"
    and drain :: "'q \<Rightarrow> 'a list \<times> 'q" +
  fixes get_queue :: "'s \<Rightarrow> 'q" and set_queue :: "'q \<Rightarrow> 's \<Rightarrow> 's"
    and handle :: "'a \<Rightarrow> 's \<Rightarrow> 'e + 's" and work :: "'s \<Rightarrow> ('e + 's) option"
  assumes get_set: "get_queue (set_queue q st) = q"
    and set_set: "set_queue q (set_queue q' st) = set_queue q st"
    and handle_frame: "handle x (set_queue q st) = bindr (handle x st) (\<lambda>st'. Inr (set_queue q st'))"
    and work_unfold: "work st =
      (let (r, q) = dequeue (get_queue st); st1 = set_queue q st
       in case r of None \<Rightarrow> Some (Inr st1)
          | Some x \<Rightarrow> (case handle x st1 of Inl e \<Rightarrow> Some (Inl e) | Inr st2 \<Rightarrow> work st2))"
begin

lemma handle_each_frame:
  "handle_each handle xs (set_queue q st) = bindr (handle_each handle xs st) (\<lambda>st'. Inr (set_queue q st'))"
proof (induction xs arbitrary: st)
  case (Cons x xs)
  then show ?case by (cases "handle x st") (simp_all add: handle_frame)
qed simp

lemma work_in_order:
  assumes "ok (get_queue st)"
  shows "\<exists>q. ok q \<and> cap q = cap (get_queue st) \<and> cont q = []
     \<and> work st = Some (bindr (handle_each handle (cont (get_queue st)) st) (\<lambda>st'. Inr (set_queue q st')))"
  using assms
proof (induction "cont (get_queue st)" arbitrary: st)
  case Nil
  obtain r q where d: "dequeue (get_queue st) = (r, q)" by fastforce
  from dequeue_spec [OF Nil.prems d] Nil.hyps have "ok q \<and> cap q = cap (get_queue st) \<and> cont q = [] \<and> r = None"
    by (metis list.case(1) list.sel(2))
  then show ?case by (intro exI [of _ q]) (simp add: work_unfold [of st] d Nil.hyps [symmetric])
next
  case (Cons x xs)
  obtain r q where d: "dequeue (get_queue st) = (r, q)" by fastforce
  from dequeue_spec [OF Cons.prems d] Cons.hyps(2)
  have q: "ok q" "cap q = cap (get_queue st)" "cont q = xs" "r = Some x"
    by (metis list.case(2) list.sel(3))+
  show ?case
  proof (cases "handle x st")
    case (Inl e)
    then show ?thesis
      using drain_spec [OF q(1)] q d Cons.hyps(2) [symmetric]
      by (cases "drain q") (auto simp: work_unfold [of st] handle_frame)
  next
    case (Inr st2)
    let ?st = "set_queue q st2"
    have w: "work st = work ?st" using d q(4) Inr by (simp add: work_unfold [of st] handle_frame)
    have "xs = cont (get_queue ?st)" "ok (get_queue ?st)" using q by (simp_all add: get_set)
    from Cons.hyps(1) [OF this] obtain q' where "ok q'" "cap q' = cap q" "cont q' = []"
      "work ?st = Some (bindr (handle_each handle xs ?st) (\<lambda>st'. Inr (set_queue q' st')))"
      using q by (auto simp: get_set)
    then show ?thesis
      using w q Inr Cons.hyps(2) [symmetric]
      by (intro exI [of _ q']) (simp add: handle_each_frame bindr_assoc set_set)
  qed
qed

end

definition ringbuffer_capacity :: "'a ringbuffer \<Rightarrow> nat" where
  "ringbuffer_capacity rb = max_size rb - 1"

interpretation spsc: bounded_queue contents ringbuffer_ok ringbuffer_capacity push pop pop_to_output_iterator
proof
  fix q q' :: "'a ringbuffer" and x :: 'a and b
  assume ok: "ringbuffer_ok q" and p: "push x q = (b, q')"
  have r: "represents q (contents q)" using ok by (simp add: ringbuffer_ok_def)
  from represents_push [OF r, of x] p
  show "ringbuffer_ok q' \<and> ringbuffer_capacity q' = ringbuffer_capacity q
      \<and> b = (length (contents q) < ringbuffer_capacity q)
      \<and> contents q' = (if b then contents q @ [x] else contents q)"
    by (auto simp: ringbuffer_capacity_def less_diff_conv represents_contents intro: represents_ok
        split: if_splits)
next
  fix q q' :: "'a ringbuffer" and r
  assume ok: "ringbuffer_ok q" and p: "pop q = (r, q')"
  have "represents q (contents q)" using ok by (simp add: ringbuffer_ok_def)
  from represents_pop [OF this] p
  show "ringbuffer_ok q' \<and> ringbuffer_capacity q' = ringbuffer_capacity q
      \<and> r = (case contents q of [] \<Rightarrow> None | x # _ \<Rightarrow> Some x) \<and> contents q' = tl (contents q)"
    by (auto simp: ringbuffer_capacity_def represents_contents intro: represents_ok)
next
  fix q q' :: "'a ringbuffer" and xs
  assume ok: "ringbuffer_ok q" and p: "pop_to_output_iterator q = (xs, q')"
  have "represents q (contents q)" using ok by (simp add: ringbuffer_ok_def)
  from represents_pop_to_output_iterator [OF this] p
  show "ringbuffer_ok q' \<and> ringbuffer_capacity q' = ringbuffer_capacity q \<and> xs = contents q \<and> contents q' = []"
    by (auto simp: ringbuffer_capacity_def represents_contents intro: represents_ok)
next
  fix q :: "'a ringbuffer"
  assume "ringbuffer_ok q"
  then show "length (contents q) \<le> ringbuffer_capacity q"
    by (auto simp: ringbuffer_ok_def represents_def ringbuffer_capacity_def)
qed

lemma ringbuffer_init_ok [simp]:
  "ringbuffer_ok (ringbuffer_init n)" "contents (ringbuffer_init n) = []"
  using represents_init [of n] unfolding represents_iff by blast+

lemma ringbuffer_init_capacity [simp]: "ringbuffer_capacity (ringbuffer_init n) = n"
  by (simp add: ringbuffer_capacity_def ringbuffer_init_def)

lemma consume_all_contents:
  assumes "ringbuffer_ok q"
  shows "\<exists>q'. consume_all f q s = (length (contents q), q', fold f (contents q) s)
     \<and> ringbuffer_ok q' \<and> contents q' = [] \<and> ringbuffer_capacity q' = ringbuffer_capacity q"
  using represents_consume_all [of q "contents q" f s] assms
  by (auto simp: represents_iff ringbuffer_capacity_def)

section \<open>Properties\<close>

text \<open>
  C9: whatever a producer and consumers do to a queue of capacity \<open>n\<close> that started empty, the
  elements handed out are, in order, the elements whose \<open>push\<close> succeeded: a prefix of them,
  the rest being still in the queue, of which there are never more than \<open>n\<close>.
\<close>

theorem spsc_queue_fifo:
  "case queue_run push pop pop_to_output_iterator es (ringbuffer_init n) of
     (accepted, delivered, q) \<Rightarrow>
       accepted = delivered @ contents q \<and> length (contents q) \<le> n \<and> ringbuffer_ok q"
  using spsc.run_fifo [of "ringbuffer_init n" es] spsc.bound
  by (fastforce split: prod.splits)

text \<open>
  C27: \<open>push\<close> on a well-formed ring buffer fails exactly when it holds as many elements as its
  capacity, and then leaves it unchanged; otherwise it appends the element.
\<close>

theorem push_refines_append:
  assumes "ringbuffer_ok rb"
  shows "(if length (contents rb) < ringbuffer_capacity rb
      then \<exists>rb'. push t rb = (True, rb') \<and> ringbuffer_ok rb' \<and> contents rb' = contents rb @ [t]
             \<and> ringbuffer_capacity rb' = ringbuffer_capacity rb
      else push t rb = (False, rb))"
  using spsc.enqueue_spec [OF assms] by (cases "push t rb") (auto simp: push_def Let_def split: if_splits)

theorem push_refines_append_witness:
  "push (7 :: nat) (snd (push 5 (ringbuffer_init 1))) = (False, snd (push 5 (ringbuffer_init 1)))"
proof -
  have ok: "ringbuffer_ok (snd (push (5 :: nat) (ringbuffer_init 1)))"
    and full: "\<not> length (contents (snd (push (5 :: nat) (ringbuffer_init 1))))
      < ringbuffer_capacity (snd (push (5 :: nat) (ringbuffer_init 1)))"
    by code_simp+
  show ?thesis using push_refines_append [OF ok, of 7] full by simp
qed

text \<open>
  C28: pushing a range into a well-formed ring buffer appends as many of its elements as
  there is room for and returns the others, also when the copy wraps around the end of the
  storage and although \<open>write_available\<close> subtracts with wrap-around.
\<close>

theorem push_range_refines_append:
  assumes "ringbuffer_ok rb" and "max_size rb < 2 ^ 64"
  shows "\<exists>rb'. push_range ys rb = (drop (ringbuffer_capacity rb - length (contents rb)) ys, rb')
     \<and> ringbuffer_ok rb'
     \<and> contents rb' = contents rb @ take (ringbuffer_capacity rb - length (contents rb)) ys"
proof -
  let ?k = "min (length ys) (max_size rb - 1 - length (contents rb))"
  have "drop ?k ys = drop (ringbuffer_capacity rb - length (contents rb)) ys"
    "take ?k ys = take (ringbuffer_capacity rb - length (contents rb)) ys"
    by (auto simp: ringbuffer_capacity_def min_def)
  with represents_push_range [of rb "contents rb" ?k ys] assms show ?thesis
    by (auto simp: represents_iff)
qed

theorem push_range_refines_append_witness:
  "\<exists>rb'. push_range [1, 2, 3, 4 :: nat] (snd (push 9 (ringbuffer_init 3))) = ([3, 4], rb')
     \<and> ringbuffer_ok rb' \<and> contents rb' = [9, 1, 2]"
proof -
  let ?rb = "snd (push (9 :: nat) (ringbuffer_init 3))"
  have 1: "ringbuffer_ok ?rb" and 2: "contents ?rb = [9]" and 3: "ringbuffer_capacity ?rb = 3"
    using spsc.enqueue_spec [of "ringbuffer_init 3" 9 "fst (push (9 :: nat) (ringbuffer_init 3))" ?rb] by simp_all
  have 4: "max_size ?rb < 2 ^ 64" using 3 by (simp add: ringbuffer_capacity_def)
  show ?thesis using push_range_refines_append [OF 1 4, of "[1, 2, 3, 4]"] by (simp add: 2 3)
qed

text \<open>
  C29: \<open>consume_all\<close> applies the functor to every element in order, reports their number and
  leaves the ring buffer empty.
\<close>

theorem consume_all_in_order:
  assumes "ringbuffer_ok rb"
  shows "\<exists>rb'. consume_all f rb s = (length (contents rb), rb', fold f (contents rb) s)
     \<and> ringbuffer_ok rb' \<and> contents rb' = []"
  using consume_all_contents [OF assms, of f s] by blast

theorem consume_all_in_order_witness:
  "\<exists>rb'. consume_all (\<lambda>x s. s @ [x]) (snd (push (3 :: nat) (snd (push 4 (ringbuffer_init 2))))) []
       = (2, rb', [4, 3]) \<and> ringbuffer_ok rb' \<and> contents rb' = []"
proof -
  let ?rb = "snd (push (3 :: nat) (snd (push 4 (ringbuffer_init 2))))"
  have 1: "ringbuffer_ok ?rb" and 2: "contents ?rb = [4, 3]" by code_simp+
  show ?thesis using consume_all_in_order [OF 1, of "\<lambda>x s. s @ [x]" "[]"] unfolding 2 by (simp add: numeral_2_eq_2)
qed

end
