(* ===== verification/Rpc_Server.thy ===== *)
theory Rpc_Server
  imports Json_Protocol Spsc_Queue
begin

text \<open>
  \<^verbatim>\<open>src/src/rpc_server.cpp\<close> and \<^verbatim>\<open>src/src/rpc_server.h\<close>: the websocket sessions, the
  listener that creates them and \<open>RPCServer\<close>. Boost.Asio and Boost.Beast are the environment:
  an asynchronous operation a handler starts is recorded as an \<open>async\<close> action, and the
  completion handlers are called with the error code and the number of bytes the environment
  chooses. An exception that leaves a handler ends the process, because \<open>ioc->run()\<close> runs in
  a thread without a handler for it.
\<close>

section \<open>Sessions\<close>

type_synonym client_request = "u32 \<times> request"
type_synonym client_response = "u32 \<times> response"

type_synonym ClientEmuQueue = "client_request ringbuffer"
type_synonym EmuClientQueue = "client_response ringbuffer"

definition queue_capacity :: nat where "queue_capacity = 1024"

text \<open>
  The members of \<open>Session\<close> that hold data. The serializer is a \<open>JSONSerializer\<close> in every
  session; \<open>read_buffer\<close> and \<open>write_buffer\<close> are the bytes in the two \<open>multi_buffer\<close>s.
\<close>

record session =
  sess_id :: u32
  read_buffer :: "u8 list"
  write_buffer :: "u8 list"
  send_data :: "u8 list"

datatype async = Async_accept | Async_read | Async_write "u8 list"

definition Session_make :: "u32 \<Rightarrow> session" where
  "Session_make ident = \<lparr>sess_id = ident, read_buffer = [], write_buffer = [], send_data = []\<rparr>"

definition Session_Run :: "session \<Rightarrow> session \<times> async list" where
  "Session_Run s = (s, [Async_accept])"

text \<open>
  \<open>Send\<close>: the bytes of the message are committed behind whatever \<open>write_buffer\<close> still holds,
  and the whole buffer is given to \<open>async_write\<close>.
\<close>

definition Session_Send ::
    "(f64 \<Rightarrow> string) \<Rightarrow> response \<Rightarrow> session \<Rightarrow> protocol_exception + session \<times> async list" where
  "Session_Send dump_float packet s =
     bindr (JSON_SerializeResponse dump_float packet) (\<lambda>data.
     let s1 = s\<lparr>send_data := data, write_buffer := write_buffer s @ data\<rparr>
     in Inr (s1, [Async_write (write_buffer s1)]))"

definition Session_DoRead :: "session \<Rightarrow> session \<times> async list" where
  "Session_DoRead s = (s, [Async_read])"

definition Session_OnAccept :: "bool \<Rightarrow> session \<Rightarrow> session \<times> async list" where
  "Session_OnAccept ec s = Session_DoRead s"

definition Session_OnWrite :: "bool \<Rightarrow> nat \<Rightarrow> session \<Rightarrow> session" where
  "Session_OnWrite ec bytes_transferred s = s\<lparr>write_buffer := []\<rparr>"

text \<open>
  \<open>OnRead\<close>: the error code is not looked at, the result of \<open>push\<close> is ignored. Before it is
  called the environment has appended the message to \<open>read_buffer\<close>.
\<close>

definition Session_OnRead ::
    "bool \<Rightarrow> nat \<Rightarrow> session \<Rightarrow> ClientEmuQueue \<Rightarrow> protocol_exception + session \<times> ClientEmuQueue \<times> async list" where
  "Session_OnRead ec bytes_transferred s client_emu =
     (if bytes_transferred = 0 then (let (s1, acts) = Session_DoRead s in Inr (s1, client_emu, acts))
      else
        let bytes = read_buffer s; s1 = s\<lparr>read_buffer := []\<rparr>
        in bindr (JSON_DeserializeRequest bytes) (\<lambda>r.
           let (_, client_emu1) = push (sess_id s1, r) client_emu;
               (s2, acts) = Session_DoRead s1
           in Inr (s2, client_emu1, acts)))"

section \<open>Listener and RPCServer\<close>

text \<open>
  A \<open>weak_ptr\<close> is the number of the session object it observes, or \<^term>\<open>None\<close> when it was
  default constructed; \<open>lock\<close> succeeds while the object is alive.
\<close>

record listener =
  next_client_id :: u32
  sessions :: "u32 \<rightharpoonup> nat option"
  objects :: "nat \<rightharpoonup> session"
  next_object :: nat
  acceptor_open :: bool

definition Listener_make :: "bool \<Rightarrow> listener" where
  "Listener_make is_open =
     \<lparr>next_client_id = 0, sessions = Map.empty, objects = Map.empty, next_object = 0,
      acceptor_open = is_open\<rparr>"

definition lock :: "listener \<Rightarrow> nat option \<Rightarrow> session option" where
  "lock l w = (case w of Some obj \<Rightarrow> objects l obj | None \<Rightarrow> None)"

definition Listener_Run :: "listener \<Rightarrow> listener \<times> async list" where
  "Listener_Run l = (if \<not> acceptor_open l then (l, []) else (l, [Async_accept]))"

text \<open>\<open>sessions[client_id]\<close> inserts an empty pointer for an id that is not there.\<close>

definition Listener_Send ::
    "(f64 \<Rightarrow> string) \<Rightarrow> u32 \<Rightarrow> response \<Rightarrow> listener \<Rightarrow> protocol_exception + listener \<times> async list" where
  "Listener_Send dump_float client_id packet l =
     (let w = (case sessions l client_id of Some w \<Rightarrow> w | None \<Rightarrow> None);
          l1 = l\<lparr>sessions := (sessions l)(client_id \<mapsto> w)\<rparr>
      in case (w, lock l1 w) of
           (Some obj, Some s) \<Rightarrow>
             bindr (Session_Send dump_float packet s) (\<lambda>(s1, acts).
             Inr (l1\<lparr>objects := (objects l1)(obj \<mapsto> s1)\<rparr>, acts))
         | _ \<Rightarrow> Inr (l1, []))"

definition Listener_OnAccept :: "bool \<Rightarrow> listener \<Rightarrow> listener \<times> async list" where
  "Listener_OnAccept ec l =
     (if \<not> ec then
        (let obj = next_object l;
             (s, acts) = Session_Run (Session_make (next_client_id l))
         in (l\<lparr>objects := (objects l)(obj \<mapsto> s), next_object := obj + 1,
               sessions := (sessions l)(next_client_id l \<mapsto> Some obj),
               next_client_id := next_client_id l + 1\<rparr>, acts @ [Async_accept]))
      else (l, [Async_accept]))"

text \<open>The last handler that holds a session is gone: the session object is destroyed.\<close>

definition Session_destroy :: "nat \<Rightarrow> listener \<Rightarrow> listener" where
  "Session_destroy obj l = l\<lparr>objects := (objects l)(obj := None)\<rparr>"

definition RPCServer_SendResponse ::
    "(f64 \<Rightarrow> string) \<Rightarrow> u32 \<Rightarrow> response \<Rightarrow> listener \<Rightarrow> protocol_exception + listener \<times> async list" where
  "RPCServer_SendResponse dump_float client_id p l = Listener_Send dump_float client_id p l"

section \<open>Sessions\<close>

lemma Session_Send_ok:
  assumes "message_ok packet"
  shows "Session_Send dump_float packet s =
     (let data = map byte_of_char (response_text packet)
      in Inr (s\<lparr>send_data := data, write_buffer := write_buffer s @ data\<rparr>, [Async_write (write_buffer s @ data)]))"
  using Serialize_ok [OF assms, of dump_float] by (simp add: Session_Send_def Let_def)

lemma Session_Send_id: "Session_Send dump_float packet s = Inr (s', acts) \<Longrightarrow> sess_id s' = sess_id s"
  by (auto simp: Session_Send_def bindr_eq_Inr Let_def)

lemma Session_OnRead_ok:
  assumes "JSON_DeserializeRequest (read_buffer s) = Inr r" and "n \<noteq> 0"
  shows "Session_OnRead ec n s q = Inr (s\<lparr>read_buffer := []\<rparr>, snd (push (sess_id s, r) q), [Async_read])"
  using assms by (simp add: Session_OnRead_def Session_DoRead_def Let_def case_prod_unfold)

lemma Session_OnRead_cases:
  assumes "Session_OnRead ec n s q = Inr (s', q', acts)"
  shows "sess_id s' = sess_id s \<and> (q' = q \<or> (\<exists>r. request_ok r \<and> q' = snd (push (sess_id s, r) q)))"
  using assms Deserialize_ok
  by (auto simp: Session_OnRead_def Session_DoRead_def Let_def bindr_eq_Inr case_prod_unfold split: if_splits)

section \<open>The listener\<close>

text \<open>
  The invariant of the listener: objects are numbered below \<open>next_object\<close>, and an id leads to
  the session that carries it.
\<close>

definition routes :: "listener \<Rightarrow> bool" where
  "routes l \<longleftrightarrow> (\<forall>obj. objects l obj \<noteq> None \<longrightarrow> obj < next_object l)
     \<and> (\<forall>k obj. sessions l k = Some (Some obj) \<longrightarrow> obj < next_object l
          \<and> (\<forall>s. objects l obj = Some s \<longrightarrow> sess_id s = k))"

lemma routes_make [simp]: "routes (Listener_make b)" "routes (fst (Listener_Run (Listener_make b)))"
  by (simp_all add: routes_def Listener_make_def Listener_Run_def)

lemma routes_accept [wf_intros]: "routes l \<Longrightarrow> routes (fst (Listener_OnAccept ec l))"
  by (auto simp: routes_def Listener_OnAccept_def Session_Run_def Session_make_def Let_def less_Suc_eq)

lemma routes_update [wf_intros]: "routes l \<Longrightarrow> objects l obj = Some s \<Longrightarrow> sess_id s' = sess_id s \<Longrightarrow> routes (l\<lparr>objects := (objects l)(obj \<mapsto> s')\<rparr>)"
  by (auto simp: routes_def)

lemma routes_destroy [wf_intros]: "routes l \<Longrightarrow> routes (Session_destroy obj l)"
  by (auto simp: routes_def Session_destroy_def)

definition session_of :: "u32 \<Rightarrow> listener \<Rightarrow> (nat \<times> session) option" where
  "session_of k l = (case sessions l k of
     Some (Some obj) \<Rightarrow> (case objects l obj of Some s \<Rightarrow> Some (obj, s) | None \<Rightarrow> None)
   | _ \<Rightarrow> None)"

lemma Listener_Send_cases:
  assumes "message_ok packet"
  shows "case session_of k l of
      None \<Rightarrow> \<exists>l'. Listener_Send dump_float k packet l = Inr (l', []) \<and> objects l' = objects l
    | Some (obj, s) \<Rightarrow>
        let data = write_buffer s @ map byte_of_char (response_text packet)
        in Listener_Send dump_float k packet l =
             Inr (l\<lparr>objects := (objects l)(obj \<mapsto> s\<lparr>send_data := map byte_of_char (response_text packet), write_buffer := data\<rparr>)\<rparr>,
                  [Async_write data])"
  using Session_Send_ok [OF assms, of dump_float]
  by (auto simp: session_of_def Listener_Send_def lock_def Let_def map_upd_triv split: option.split)

lemma routes_send [wf_intros]:
  assumes "routes l" and "Listener_Send dump_float k packet l = Inr (l', acts)"
  shows "routes l'"
proof -
  let ?l = "l\<lparr>sessions := (sessions l)(k \<mapsto> (case sessions l k of Some w \<Rightarrow> w | None \<Rightarrow> None))\<rparr>"
  have r: "routes ?l" using assms(1) by (auto simp: routes_def split: option.splits)
  show ?thesis
    using assms(2) r routes_update [OF r] Session_Send_id
    by (auto simp: Listener_Send_def lock_def Let_def bindr_eq_Inr split: option.splits)
qed

lemma session_of_id: "routes l \<Longrightarrow> session_of k l = Some (obj, s) \<Longrightarrow> sess_id s = k \<and> objects l obj = Some s"
  by (auto simp: session_of_def routes_def split: option.splits)

section \<open>Properties\<close>

text \<open>
  C35: \<open>Send\<close> on a session with nothing left in its write buffer starts one write of exactly the
  text of the response, and \<open>OnWrite\<close> makes the buffer empty again.
\<close>

theorem Session_Send_idle:
  assumes "message_ok packet" and "write_buffer s = []"
  shows "\<exists>s'. Session_Send dump_float packet s = Inr (s', [Async_write (map byte_of_char (response_text packet))])
     \<and> write_buffer (Session_OnWrite ec n s') = [] \<and> sess_id s' = sess_id s"
  using Session_Send_ok [OF assms(1), of dump_float s] assms(2) by (simp add: Session_OnWrite_def Let_def)

theorem Session_Send_idle_witness:
  "\<exists>s'. Session_Send (\<lambda>_. []) (Resp_MemoryWrite (memory_write_response_make 4)) (Session_make 1)
        = Inr (s', [Async_write (map byte_of_char (response_text (Resp_MemoryWrite (memory_write_response_make 4))))])
     \<and> write_buffer (Session_OnWrite False 0 s') = [] \<and> sess_id s' = sess_id (Session_make 1)"
  by (rule Session_Send_idle) (simp_all add: NoneError_def Session_make_def)



text \<open>
  C10: routing: on a listener that satisfies its invariant, sending to client \<open>k\<close> writes only on
  the live session whose id is \<open>k\<close>, leaves every other session as it was, and does nothing when
  there is no such session.
\<close>

theorem Listener_Send_routes:
  assumes "routes l" and "message_ok packet"
  shows "\<exists>l' acts. Listener_Send dump_float k packet l = Inr (l', acts)
     \<and> (case session_of k l of
          None \<Rightarrow> objects l' = objects l \<and> acts = []
        | Some (obj, s) \<Rightarrow> sess_id s = k
            \<and> acts = [Async_write (write_buffer s @ map byte_of_char (response_text packet))]
            \<and> (\<forall>obj'. obj' \<noteq> obj \<longrightarrow> objects l' obj' = objects l obj'))"
  using Listener_Send_cases [OF assms(2), where k = k and l = l and dump_float = dump_float] session_of_id [OF assms(1), of k]
  by (auto simp: Let_def split: option.splits)

theorem Listener_Send_routes_witness:
  "\<exists>l' acts. Listener_Send (\<lambda>_. []) 0 (Resp_Packet (response_packet_make 3 NoneError))
        (fst (Listener_OnAccept False (Listener_make True))) = Inr (l', acts)
     \<and> (case session_of 0 (fst (Listener_OnAccept False (Listener_make True))) of
          None \<Rightarrow> objects l' = objects (fst (Listener_OnAccept False (Listener_make True))) \<and> acts = []
        | Some (obj, s) \<Rightarrow> sess_id s = 0
            \<and> acts = [Async_write (write_buffer s @ map byte_of_char (response_text (Resp_Packet (response_packet_make 3 NoneError))))]
            \<and> (\<forall>obj'. obj' \<noteq> obj \<longrightarrow> objects l' obj' = objects (fst (Listener_OnAccept False (Listener_make True))) obj'))"
  by (rule Listener_Send_routes) (simp_all add: routes_accept)

end
