(* ===== verification/EmuRpc.thy ===== *)
theory EmuRpc
  imports Rpc_Server
begin

text \<open>
  \<^verbatim>\<open>src/src/emurpc.cpp\<close> with \<^verbatim>\<open>src/include/emurpc.hpp\<close> and
  \<^verbatim>\<open>src/include/emurpc.h\<close>: the object an emulator embeds. The server thread runs
  \<open>ProcessEvents\<close>, the emulator thread calls \<open>HandleTiming\<close> through the C++ or the C interface.
  The callbacks of the configuration are the emulator's own code: parameters that act on a
  guest state of type \<open>'m\<close>, in which \<open>user_data\<close> is included. A read callback is given the
  buffer it fills and returns the buffer's contents. Memory is unlimited: of the exceptions of
  an allocation only the one for a size no vector can have is modelled.
\<close>

section \<open>Configuration\<close>

record 'm Config =
  memory_read_callback :: "u64 \<Rightarrow> u64 \<Rightarrow> u8 list \<Rightarrow> 'm \<Rightarrow> u8 list \<times> 'm"
  memory_write_callback :: "u64 \<Rightarrow> u64 \<Rightarrow> u8 list \<Rightarrow> 'm \<Rightarrow> 'm"
  gpu_read_callback :: "string \<Rightarrow> u8 list \<Rightarrow> 'm \<Rightarrow> u8 list \<times> 'm"
  gpu_write_callback :: "string \<Rightarrow> u64 \<Rightarrow> u8 list \<Rightarrow> 'm \<Rightarrow> 'm"
  special_read_callback :: "string \<Rightarrow> u8 list \<Rightarrow> 'm \<Rightarrow> u8 list \<times> 'm"
  special_write_callback :: "string \<Rightarrow> u64 \<Rightarrow> u8 list \<Rightarrow> 'm \<Rightarrow> 'm"
  save_state_callback :: "u16 \<Rightarrow> 'm \<Rightarrow> bool \<times> 'm"
  load_state_callback :: "u16 \<Rightarrow> 'm \<Rightarrow> bool \<times> 'm"
  load_rom_callback :: "string \<Rightarrow> 'm \<Rightarrow> bool \<times> 'm"
  create_overlay_callback :: "u32 \<Rightarrow> u16 \<Rightarrow> u16 \<Rightarrow> u32 \<Rightarrow> u32 \<Rightarrow> 'm \<Rightarrow> bool \<times> 'm"
  draw_overlay_text_callback :: "u32 \<Rightarrow> u16 \<Rightarrow> u16 \<Rightarrow> string \<Rightarrow> 'm \<Rightarrow> bool \<times> 'm"
  enable_memory_access_timing :: bool
  enable_gpu_access_timing :: bool
  enable_special_access_timing :: bool

datatype AccessType = Read | Write

section \<open>State\<close>

text \<open>
  \<open>Impl\<close>, with the listener inside \<open>server\<close>, the guest behind the callbacks, and the socket
  operations started so far.
\<close>

record 'm impl =
  config :: "'m Config"
  stopped :: bool
  blocking_emu :: bool
  callbacks :: "Timing \<Rightarrow> client_request list"
  client_emu :: ClientEmuQueue
  emu_client :: EmuClientQueue
  server :: listener
  guest :: 'm
  net :: "async list"

text \<open>
  The constructor of \<open>EmuRPC\<close>. \<open>blocking_emu\<close> is not initialised by the code; whether the
  acceptor could be opened is up to the environment.
\<close>

definition EmuRPC_make :: "'m Config \<Rightarrow> bool \<Rightarrow> bool \<Rightarrow> 'm \<Rightarrow> 'm impl" where
  "EmuRPC_make conf uninit is_open g =
     (let (l, acts) = Listener_Run (Listener_make is_open)
      in \<lparr>config = conf, stopped = False, blocking_emu = uninit, callbacks = (\<lambda>_. []),
          client_emu = ringbuffer_init queue_capacity, emu_client = ringbuffer_init queue_capacity,
          server = l, guest = g, net = acts\<rparr>)"

text \<open>What can end the process or leave defined behaviour.\<close>

datatype emu_exception =
    protocol_exc protocol_exception \<comment> \<open>not caught in the thread that meets it\<close>
  | length_error \<comment> \<open>from \<open>std::vector<u8> data(p->length)\<close>\<close>
  | invalid_downcast \<comment> \<open>\<open>static_cast\<close> to a class the object is not of\<close>
  | output_overrun \<comment> \<open>\<open>pop(&message)\<close> with more than one element queued\<close>

section \<open>HandleRequest\<close>

definition vector_max_size :: nat where "vector_max_size = 2 ^ 63 - 1"

definition HandleCommand :: "command_packet \<Rightarrow> 'm impl \<Rightarrow> 'm impl" where
  "HandleCommand c st = st"

definition SendResponse :: "response \<Rightarrow> 'm impl \<Rightarrow> 'm impl" where
  "SendResponse r st = st"

text \<open>The downcasts \<open>static_cast<const Command*>\<close>.\<close>

fun as_command :: "request \<Rightarrow> emu_exception + command_packet" where
  "as_command (Req_SaveState c) = Inr (command_packet.truncate c)"
| "as_command (Req_LoadState c) = Inr (command_packet.truncate c)"
| "as_command _ = Inl invalid_downcast"

definition HandleMemoryRead :: "u32 \<Rightarrow> memory_read \<Rightarrow> 'm impl \<Rightarrow> emu_exception + 'm impl" where
  "HandleMemoryRead ident p st =
     (if vector_max_size < unat (read_length p) then Inl length_error
      else
        let data = replicate (unat (read_length p)) 0;
            (data', g) = memory_read_callback (config st) (read_address p) (read_length p) data (guest st);
            (_, q) = push (ident, Resp_MemoryRead (memory_read_response_make (packet_id p) data')) (emu_client st)
        in Inr (st\<lparr>guest := g, emu_client := q\<rparr>))"

definition HandleMemoryWrite :: "u32 \<Rightarrow> memory_write \<Rightarrow> 'm impl \<Rightarrow> 'm impl" where
  "HandleMemoryWrite ident p st =
     (let g = memory_write_callback (config st) (write_address p) (of_nat (length (write_data p)))
                (write_data p) (guest st);
          (_, q) = push (ident, Resp_MemoryWrite (memory_write_response_make (packet_id p))) (emu_client st)
      in st\<lparr>guest := g, emu_client := q\<rparr>)"

definition HandleRequest :: "u32 \<Rightarrow> request \<Rightarrow> 'm impl \<Rightarrow> emu_exception + 'm impl" where
  "HandleRequest ident r st =
     (case packet_method (request_base r) of
        Method_Command \<Rightarrow> bindr (as_command r) (\<lambda>c. Inr (HandleCommand c st))
      | Method_MemoryRead \<Rightarrow>
          (case r of Req_MemoryRead p \<Rightarrow> HandleMemoryRead ident p st | _ \<Rightarrow> Inl invalid_downcast)
      | Method_MemoryWrite \<Rightarrow>
          (case r of Req_MemoryWrite p \<Rightarrow> Inr (HandleMemoryWrite ident p st) | _ \<Rightarrow> Inl invalid_downcast)
      | Method_GPURead \<Rightarrow> Inr st
      | Method_GPUWrite \<Rightarrow> Inr st
      | Method_SpecialRead \<Rightarrow> Inr st
      | Method_SpecialWrite \<Rightarrow> Inr st)"

section \<open>The server thread\<close>

text \<open>One element of \<open>emu_client\<close> is sent to its client.\<close>

definition send_one :: "(f64 \<Rightarrow> string) \<Rightarrow> client_response \<Rightarrow> 'm impl \<Rightarrow> emu_exception + 'm impl" where
  "send_one dump_float res st =
     (let (ident, packet) = res
      in bindr (map_exc protocol_exc (RPCServer_SendResponse dump_float ident packet (server st)))
           (\<lambda>(l, acts). Inr (st\<lparr>server := l, net := net st @ acts\<rparr>)))"

text \<open>The two inner loops of \<open>ProcessEvents\<close>; \<^term>\<open>None\<close> would be a loop that does not end.\<close>

partial_function (option) respond_loop ::
    "(f64 \<Rightarrow> string) \<Rightarrow> 'm impl \<Rightarrow> (emu_exception + 'm impl) option" where
  "respond_loop dump_float st =
     (let (r, q) = pop (emu_client st); st1 = st\<lparr>emu_client := q\<rparr>
      in case r of
           None \<Rightarrow> Some (Inr st1)
         | Some res \<Rightarrow>
             (case send_one dump_float res st1 of
                Inl e \<Rightarrow> Some (Inl e)
              | Inr st2 \<Rightarrow> respond_loop dump_float st2))"

partial_function (option) request_loop :: "'m impl \<Rightarrow> (emu_exception + 'm impl) option" where
  "request_loop st =
     (let (r, q) = pop (client_emu st); st1 = st\<lparr>client_emu := q\<rparr>
      in case r of
           None \<Rightarrow> Some (Inr st1)
         | Some req \<Rightarrow>
             (case HandleRequest (fst req) (snd req) st1 of
                Inl e \<Rightarrow> Some (Inl e)
              | Inr st2 \<Rightarrow> request_loop st2))"

text \<open>One iteration of the outer loop of \<open>ProcessEvents\<close>; the flag is whether it was entered.\<close>

definition process_events_iteration ::
    "(f64 \<Rightarrow> string) \<Rightarrow> 'm impl \<Rightarrow> (emu_exception + bool \<times> 'm impl) option" where
  "process_events_iteration dump_float st =
     (if stopped st then Some (Inr (False, st))
      else
        case respond_loop dump_float st of
          None \<Rightarrow> None
        | Some (Inl e) \<Rightarrow> Some (Inl e)
        | Some (Inr st1) \<Rightarrow>
            (case request_loop st1 of
               None \<Rightarrow> None
             | Some (Inl e) \<Rightarrow> Some (Inl e)
             | Some (Inr st2) \<Rightarrow> Some (Inr (True, st2))))"

section \<open>The emulator thread\<close>

text \<open>The loop over the callbacks of a timing.\<close>

fun callback_loop :: "client_request list \<Rightarrow> 'm impl \<Rightarrow> emu_exception + 'm impl" where
  "callback_loop [] st = Inr st"
| "callback_loop ((ident, cb) # reqs) st =
     (let st1 = (if packet_sync (request_base cb) = Blocking then st\<lparr>blocking_emu := True\<rparr> else st)
      in bindr (HandleRequest ident cb st1) (callback_loop reqs))"

text \<open>The lambda \<open>process\<close>: false for a \<open>Continue\<close> command.\<close>

definition process :: "client_request \<Rightarrow> emu_exception + bool" where
  "process req =
     (let (ident, message) = req
      in if packet_method (request_base message) = Method_Command
         then bindr (as_command message) (\<lambda>m. Inr (command_type m \<noteq> Continue))
         else Inr True)"

definition drain_requests :: "'m impl \<Rightarrow> emu_exception + 'm impl" where
  "drain_requests st =
     (let (_, q, r) = consume_all (\<lambda>req s. bindr s (\<lambda>_. process req)) (client_emu st) (Inr True)
      in bindr r (\<lambda>_. Inr (st\<lparr>client_emu := q\<rparr>)))"

text \<open>
  The loop of the blocking branch. \<open>pop(&message)\<close> is the overload for output iterators: it
  copies every queued element to where \<open>message\<close> is. \<open>is_blocked\<close> is assigned and not read.
\<close>

partial_function (option) blocking_loop :: "'m impl \<Rightarrow> (emu_exception + 'm impl) option" where
  "blocking_loop st =
     (let (xs, q) = pop_to_output_iterator (client_emu st); st1 = st\<lparr>client_emu := q\<rparr>
      in if xs = [] then Some (Inr st1)
         else if 1 < length xs then Some (Inl output_overrun)
         else
           (case process (hd xs) of
              Inl e \<Rightarrow> Some (Inl e)
            | Inr is_blocked \<Rightarrow> blocking_loop st1))"

definition HandleTiming :: "Timing \<Rightarrow> 'm impl \<Rightarrow> (emu_exception + 'm impl) option" where
  "HandleTiming t st =
     (case bindr (callback_loop (callbacks st t) st) drain_requests of
        Inl e \<Rightarrow> Some (Inl e)
      | Inr st1 \<Rightarrow> if blocking_emu st1 then blocking_loop st1 else Some (Inr st1))"

section \<open>The interfaces\<close>

definition OnFrameEnd :: "'m impl \<Rightarrow> (emu_exception + 'm impl) option" where
  "OnFrameEnd st = HandleTiming FrameEnd st"

definition OnMemoryAccess ::
    "AccessType \<Rightarrow> u64 \<Rightarrow> u64 \<Rightarrow> 'm impl \<Rightarrow> (emu_exception + 'm impl) option" where
  "OnMemoryAccess type address sz st = HandleTiming MemoryAccess st"

definition OnGPUAccess :: "AccessType \<Rightarrow> string \<Rightarrow> 'm impl \<Rightarrow> 'm impl" where
  "OnGPUAccess type field st = st"

definition OnSpecialAccess :: "AccessType \<Rightarrow> string \<Rightarrow> 'm impl \<Rightarrow> 'm impl" where
  "OnSpecialAccess type field st = st"

definition CheckRange :: "u64 \<Rightarrow> u64 \<Rightarrow> 'm impl \<Rightarrow> bool" where
  "CheckRange addr sz st = True"

text \<open>The destructor's first statement; the server thread leaves its loop afterwards.\<close>

definition Impl_stop :: "'m impl \<Rightarrow> 'm impl" where
  "Impl_stop st = st\<lparr>stopped := True\<rparr>"

text \<open>The C interface. The configuration record of the C header has the same members.\<close>

record 'm emurpc_config =
  c_memory_read_callback :: "u64 \<Rightarrow> u64 \<Rightarrow> u8 list \<Rightarrow> 'm \<Rightarrow> u8 list \<times> 'm"
  c_memory_write_callback :: "u64 \<Rightarrow> u64 \<Rightarrow> u8 list \<Rightarrow> 'm \<Rightarrow> 'm"
  c_gpu_read_callback :: "string \<Rightarrow> u8 list \<Rightarrow> 'm \<Rightarrow> u8 list \<times> 'm"
  c_gpu_write_callback :: "string \<Rightarrow> u64 \<Rightarrow> u8 list \<Rightarrow> 'm \<Rightarrow> 'm"
  c_special_read_callback :: "string \<Rightarrow> u8 list \<Rightarrow> 'm \<Rightarrow> u8 list \<times> 'm"
  c_special_write_callback :: "string \<Rightarrow> u64 \<Rightarrow> u8 list \<Rightarrow> 'm \<Rightarrow> 'm"
  c_save_state_callback :: "u16 \<Rightarrow> 'm \<Rightarrow> bool \<times> 'm"
  c_load_state_callback :: "u16 \<Rightarrow> 'm \<Rightarrow> bool \<times> 'm"
  c_load_rom_callback :: "string \<Rightarrow> 'm \<Rightarrow> bool \<times> 'm"
  c_create_overlay_callback :: "u32 \<Rightarrow> u16 \<Rightarrow> u16 \<Rightarrow> u32 \<Rightarrow> u32 \<Rightarrow> 'm \<Rightarrow> bool \<times> 'm"
  c_draw_overlay_text_callback :: "u32 \<Rightarrow> u16 \<Rightarrow> u16 \<Rightarrow> string \<Rightarrow> 'm \<Rightarrow> bool \<times> 'm"
  c_enable_memory_access_timing :: bool
  c_enable_gpu_access_timing :: bool
  c_enable_special_access_timing :: bool

text \<open>The aggregate initialisation of \<open>EmuRPC::Config\<close>, member by member in order.\<close>

definition convert_config :: "'m emurpc_config \<Rightarrow> 'm Config" where
  "convert_config c =
     Config.make (c_memory_read_callback c) (c_memory_write_callback c) (c_gpu_read_callback c)
       (c_gpu_write_callback c) (c_special_read_callback c) (c_special_write_callback c)
       (c_save_state_callback c) (c_load_state_callback c) (c_load_rom_callback c)
       (c_create_overlay_callback c) (c_draw_overlay_text_callback c)
       (c_enable_memory_access_timing c) (c_enable_gpu_access_timing c)
       (c_enable_special_access_timing c)"

definition emurpc_start :: "'m emurpc_config \<Rightarrow> bool \<Rightarrow> bool \<Rightarrow> 'm \<Rightarrow> 'm impl" where
  "emurpc_start c uninit is_open g = EmuRPC_make (convert_config c) uninit is_open g"

datatype emurpc_access_type = EMURPC_ACCESS_TYPE_READ | EMURPC_ACCESS_TYPE_WRITE

fun access_type :: "emurpc_access_type \<Rightarrow> AccessType" where
  "access_type EMURPC_ACCESS_TYPE_READ = Read"
| "access_type EMURPC_ACCESS_TYPE_WRITE = Write"

record emurpc_memory_access =
  ma_type :: emurpc_access_type
  ma_address :: u64
  ma_size :: u64

record emurpc_field_access =
  fa_type :: emurpc_access_type
  fa_field_name :: string

definition emurpc_destroy :: "'m impl \<Rightarrow> 'm impl" where
  "emurpc_destroy st = Impl_stop st"

definition emurpc_on_frame_end :: "'m impl \<Rightarrow> (emu_exception + 'm impl) option" where
  "emurpc_on_frame_end st = OnFrameEnd st"

definition emurpc_on_memory_access ::
    "emurpc_memory_access \<Rightarrow> 'm impl \<Rightarrow> (emu_exception + 'm impl) option" where
  "emurpc_on_memory_access c st = OnMemoryAccess (access_type (ma_type c)) (ma_address c) (ma_size c) st"

definition emurpc_on_gpu_access :: "emurpc_field_access \<Rightarrow> 'm impl \<Rightarrow> 'm impl" where
  "emurpc_on_gpu_access c st = OnGPUAccess (access_type (fa_type c)) (fa_field_name c) st"

definition emurpc_on_special_access :: "emurpc_field_access \<Rightarrow> 'm impl \<Rightarrow> 'm impl" where
  "emurpc_on_special_access c st = OnSpecialAccess (access_type (fa_type c)) (fa_field_name c) st"

definition emurpc_check_addr_range :: "u64 \<Rightarrow> u64 \<Rightarrow> 'm impl \<Rightarrow> bool" where
  "emurpc_check_addr_range addr sz st = False"

end
