(* ===== verification/Emu_System.thy ===== *)
theory Emu_System
  imports EmuRpc
begin

text \<open>
  The running system: the loops of the server thread as queue workers, the steps of the three
  threads as a transition relation on the state of \<open>Impl\<close>, its invariant, and what the loops
  compute. The relation interleaves whole handlers of the io thread, single queue elements of
  the server thread and whole calls of the emulator thread; data races inside them are not
  modelled.
\<close>

section \<open>The loops of the server thread\<close>

text \<open>Both inner loops of \<open>ProcessEvents\<close> are queue workers.\<close>

lemma send_one_frame:
  "send_one dump_float res (st\<lparr>emu_client := q\<rparr>)
     = bindr (send_one dump_float res st) (\<lambda>st'. Inr (st'\<lparr>emu_client := q\<rparr>))"
  by (cases res; cases "RPCServer_SendResponse dump_float (fst res) (snd res) (server st)")
    (auto simp: send_one_def)

interpretation respond: queue_worker contents ringbuffer_ok ringbuffer_capacity push pop pop_to_output_iterator
  emu_client "\<lambda>q st. st\<lparr>emu_client := q\<rparr>" "send_one dump_float" "respond_loop dump_float" for dump_float
  by unfold_locales (simp_all add: send_one_frame respond_loop.simps)

lemma HandleRequest_frame:
  "HandleRequest ident r (st\<lparr>client_emu := q\<rparr>)
     = bindr (HandleRequest ident r st) (\<lambda>st'. Inr (st'\<lparr>client_emu := q\<rparr>))"
proof -
  have "HandleMemoryRead ident p (st\<lparr>client_emu := q\<rparr>)
      = bindr (HandleMemoryRead ident p st) (\<lambda>st'. Inr (st'\<lparr>client_emu := q\<rparr>))" for p
    by (simp add: HandleMemoryRead_def Let_def case_prod_unfold)
  moreover have "HandleMemoryWrite ident p (st\<lparr>client_emu := q\<rparr>) = (HandleMemoryWrite ident p st)\<lparr>client_emu := q\<rparr>" for p
    by (simp add: HandleMemoryWrite_def Let_def case_prod_unfold)
  ultimately show ?thesis
    by (cases "as_command r") (auto simp: HandleRequest_def HandleCommand_def split: Method.split request.split)
qed

abbreviation handle_client_request :: "client_request \<Rightarrow> 'm impl \<Rightarrow> emu_exception + 'm impl" where
  "handle_client_request req \<equiv> HandleRequest (fst req) (snd req)"

interpretation requests: queue_worker contents ringbuffer_ok ringbuffer_capacity push pop pop_to_output_iterator
  client_emu "\<lambda>q st. st\<lparr>client_emu := q\<rparr>" handle_client_request request_loop
  by unfold_locales (simp_all add: HandleRequest_frame request_loop.simps)

section \<open>The invariant of the running system\<close>

text \<open>
  What every reachable state has: well-formed queues of the declared capacity, no queued request
  whose downcast would be wrong, no queued response that cannot be written, a listener that
  routes ids to the sessions that carry them, and no registered callback.
\<close>

definition impl_ok :: "'m impl \<Rightarrow> bool" where
  "impl_ok st \<longleftrightarrow> ringbuffer_ok (client_emu st) \<and> ringbuffer_capacity (client_emu st) = queue_capacity
     \<and> ringbuffer_ok (emu_client st) \<and> ringbuffer_capacity (emu_client st) = queue_capacity
     \<and> (\<forall>req \<in> set (contents (client_emu st)). request_ok (snd req))
     \<and> (\<forall>res \<in> set (contents (emu_client st)). message_ok (snd res))
     \<and> routes (server st) \<and> callbacks st = (\<lambda>_. [])"

lemma impl_ok_make: "impl_ok (EmuRPC_make conf uninit is_open g)"
  by (cases is_open) (simp_all add: impl_ok_def EmuRPC_make_def Listener_Run_def Listener_make_def routes_def Let_def)

lemma push_ok:
  assumes "ringbuffer_ok q" and "ringbuffer_capacity q = n" and "\<forall>x \<in> set (contents q). P x" and "P x"
  shows "ringbuffer_ok (snd (push x q))" "ringbuffer_capacity (snd (push x q)) = n"
    "\<forall>x \<in> set (contents (snd (push x q))). P x"
  using spsc.enqueue_spec [OF assms(1), of x "fst (push x q)" "snd (push x q)"] assms by (auto split: if_splits)

lemma pop_ok:
  assumes "ringbuffer_ok q" and "ringbuffer_capacity q = n" and "\<forall>x \<in> set (contents q). P x" and "pop q = (r, q')"
  shows "ringbuffer_ok q'" "ringbuffer_capacity q' = n" "\<forall>x \<in> set (contents q'). P x" "\<forall>x. r = Some x \<longrightarrow> P x"
  using spsc.dequeue_spec [OF assms(1,4)] assms(2,3) by (cases "contents q"; auto)+

lemma responses_ok [simp]:
  "message_ok (Resp_MemoryRead (memory_read_response_make i d))" "message_ok (Resp_MemoryWrite (memory_write_response_make i))"
  by (simp_all add: NoneError_def)

lemma HandleRequest_ok_cases:
  assumes "request_ok r"
  obtains p where "r = Req_MemoryRead p" "packet_method p = Method_MemoryRead" "HandleRequest ident r st = HandleMemoryRead ident p st"
  | p where "r = Req_MemoryWrite p" "packet_method p = Method_MemoryWrite" "HandleRequest ident r st = Inr (HandleMemoryWrite ident p st)"
  using assms by (cases r) (auto simp: HandleRequest_def)

lemma HandleRequest_ok [wf_intros]:
  assumes "impl_ok st" and "request_ok r" and "HandleRequest ident r st = Inr st'"
  shows "impl_ok st'"
  using assms(2)
proof (cases rule: HandleRequest_ok_cases [where ident = ident and st = st])
  case (1 p)
  let ?cb = "memory_read_callback (config st) (read_address p) (read_length p) (replicate (unat (read_length p)) 0) (guest st)"
  let ?x = "(ident, Resp_MemoryRead (memory_read_response_make (packet_id p) (fst ?cb)))"
  have "st' = st\<lparr>guest := snd ?cb, emu_client := snd (push ?x (emu_client st))\<rparr>"
    using 1(3) assms(3) by (auto simp: HandleMemoryRead_def Let_def case_prod_unfold split: if_splits)
  then show ?thesis
    using assms(1) push_ok [of "emu_client st" queue_capacity "\<lambda>res. message_ok (snd res)" ?x]
    by (simp add: impl_ok_def del: message_ok.simps)
next
  case (2 p)
  let ?x = "(ident, Resp_MemoryWrite (memory_write_response_make (packet_id p)))"
  show ?thesis
    using assms 2(3) push_ok [of "emu_client st" queue_capacity "\<lambda>res. message_ok (snd res)" ?x]
    by (auto simp: impl_ok_def HandleMemoryWrite_def Let_def case_prod_unfold simp del: message_ok.simps)
qed

lemma HandleRequest_no_downcast:
  "request_ok r \<Longrightarrow> HandleRequest ident r st = Inl e \<Longrightarrow> e = length_error"
  by (erule HandleRequest_ok_cases [where ident = ident and st = st])
    (auto simp: HandleMemoryRead_def Let_def case_prod_unfold split: if_splits)

lemma send_one_total:
  assumes "message_ok (snd res)"
  shows "\<exists>l acts. RPCServer_SendResponse dump_float (fst res) (snd res) (server st) = Inr (l, acts)
     \<and> send_one dump_float res st = Inr (st\<lparr>server := l, net := net st @ acts\<rparr>)"
  using Listener_Send_cases [OF assms, where k = "fst res" and l = "server st" and dump_float = dump_float]
  by (auto simp: send_one_def RPCServer_SendResponse_def case_prod_unfold Let_def split: option.splits)

lemma send_one_ok:
  assumes "impl_ok st" and "message_ok (snd res)"
  shows "\<exists>st'. send_one dump_float res st = Inr st' \<and> impl_ok st' \<and> client_emu st' = client_emu st
     \<and> emu_client st' = emu_client st \<and> guest st' = guest st \<and> config st' = config st \<and> stopped st' = stopped st"
  using send_one_total [OF assms(2), of dump_float st] routes_send assms(1)
  by (auto simp: impl_ok_def RPCServer_SendResponse_def)

lemma process_ok: "request_ok (snd req) \<Longrightarrow> process req = Inr True"
  by (cases req; cases "snd req") (auto simp: process_def)

lemma drain_ok:
  assumes "impl_ok st"
  shows "\<exists>q. drain_requests st = Inr (st\<lparr>client_emu := q\<rparr>) \<and> ringbuffer_ok q \<and> contents q = []
     \<and> ringbuffer_capacity q = queue_capacity"
proof -
  have "fold (\<lambda>req s. bindr s (\<lambda>_. process req)) xs (Inr True) = Inr True" if "\<forall>req \<in> set xs. request_ok (snd req)" for xs
    using that by (induction xs) (simp_all add: process_ok)
  then show ?thesis
    using assms consume_all_contents [of "client_emu st" "\<lambda>req s. bindr s (\<lambda>_. process req)" "Inr True"]
    by (auto simp: drain_requests_def impl_ok_def)
qed

lemma blocking_empty:
  assumes "ringbuffer_ok (client_emu st)" and "contents (client_emu st) = []"
  shows "\<exists>q. blocking_loop st = Some (Inr (st\<lparr>client_emu := q\<rparr>)) \<and> ringbuffer_ok q \<and> contents q = []
     \<and> ringbuffer_capacity q = ringbuffer_capacity (client_emu st)"
proof -
  obtain xs q where d: "pop_to_output_iterator (client_emu st) = (xs, q)" by fastforce
  from spsc.drain_spec [OF assms(1) d] d assms(2) show ?thesis by (auto simp: blocking_loop.simps [of st])
qed

lemma HandleTiming_ok:
  assumes "impl_ok st"
  shows "\<exists>q. HandleTiming t st = Some (Inr (st\<lparr>client_emu := q\<rparr>)) \<and> ringbuffer_ok q \<and> contents q = []
     \<and> ringbuffer_capacity q = queue_capacity"
proof -
  obtain q where q: "drain_requests st = Inr (st\<lparr>client_emu := q\<rparr>)" "ringbuffer_ok q" "contents q = []"
    "ringbuffer_capacity q = queue_capacity" using drain_ok [OF assms] by blast
  have "callbacks st t = []" using assms by (simp add: impl_ok_def)
  then show ?thesis
    using q blocking_empty [of "st\<lparr>client_emu := q\<rparr>"] by (auto simp: HandleTiming_def)
qed


section \<open>Steps of the three threads\<close>

text \<open>
  The handlers of the io thread on the whole state. The environment chooses the error code, the
  number of bytes it reports, and the bytes it has put into the read buffer.
\<close>

definition io_accept :: "bool \<Rightarrow> 'm impl \<Rightarrow> 'm impl" where
  "io_accept ec st =
     (let (l, acts) = Listener_OnAccept ec (server st) in st\<lparr>server := l, net := net st @ acts\<rparr>)"

definition io_read :: "nat \<Rightarrow> u8 list \<Rightarrow> bool \<Rightarrow> nat \<Rightarrow> 'm impl \<Rightarrow> emu_exception + 'm impl" where
  "io_read obj bytes ec n st =
     (case objects (server st) obj of
        None \<Rightarrow> Inr st
      | Some s \<Rightarrow>
          bindr (map_exc protocol_exc
                  (Session_OnRead ec n (s\<lparr>read_buffer := read_buffer s @ bytes\<rparr>) (client_emu st)))
            (\<lambda>(s', q, acts).
               Inr (st\<lparr>server := (server st)\<lparr>objects := (objects (server st))(obj \<mapsto> s')\<rparr>,
                       client_emu := q, net := net st @ acts\<rparr>)))"

definition io_written :: "nat \<Rightarrow> bool \<Rightarrow> nat \<Rightarrow> 'm impl \<Rightarrow> 'm impl" where
  "io_written obj ec n st =
     (case objects (server st) obj of
        None \<Rightarrow> st
      | Some s \<Rightarrow> st\<lparr>server := (server st)\<lparr>objects := (objects (server st))(obj \<mapsto> Session_OnWrite ec n s)\<rparr>\<rparr>)"

text \<open>
  The interleavings: the io thread runs one handler, the server thread takes one element of a
  queue, the emulator thread makes one call of \<open>HandleTiming\<close>. A step that throws has no
  successor.
\<close>

inductive system_step :: "(f64 \<Rightarrow> string) \<Rightarrow> 'm impl \<Rightarrow> 'm impl \<Rightarrow> bool" for dump_float where
  accept: "system_step dump_float st (io_accept ec st)"
| read: "io_read obj bytes ec n st = Inr st' \<Longrightarrow> system_step dump_float st st'"
| written: "system_step dump_float st (io_written obj ec n st)"
| closed: "system_step dump_float st (st\<lparr>server := Session_destroy obj (server st)\<rparr>)"
| respond: "pop (emu_client st) = (Some res, q) \<Longrightarrow> send_one dump_float res (st\<lparr>emu_client := q\<rparr>) = Inr st' \<Longrightarrow>
    system_step dump_float st st'"
| request: "pop (client_emu st) = (Some req, q) \<Longrightarrow>
    HandleRequest (fst req) (snd req) (st\<lparr>client_emu := q\<rparr>) = Inr st' \<Longrightarrow> system_step dump_float st st'"
| timing: "HandleTiming t st = Some (Inr st') \<Longrightarrow> system_step dump_float st st'"
| stop: "system_step dump_float st (Impl_stop st)"

inductive system_reachable :: "(f64 \<Rightarrow> string) \<Rightarrow> 'm impl \<Rightarrow> bool" for dump_float where
  start: "system_reachable dump_float (EmuRPC_make conf uninit is_open g)"
| step: "system_reachable dump_float st \<Longrightarrow> system_step dump_float st st' \<Longrightarrow> system_reachable dump_float st'"

lemma io_read_ok [wf_intros]:
  assumes "impl_ok st" and "io_read obj bytes ec n st = Inr st'"
  shows "impl_ok st'"
proof (cases "objects (server st) obj")
  case None
  with assms show ?thesis by (simp add: io_read_def)
next
  case (Some s)
  then obtain s' q acts where r: "Session_OnRead ec n (s\<lparr>read_buffer := read_buffer s @ bytes\<rparr>) (client_emu st) = Inr (s', q, acts)"
    and st': "st' = st\<lparr>server := (server st)\<lparr>objects := (objects (server st))(obj \<mapsto> s')\<rparr>, client_emu := q, net := net st @ acts\<rparr>"
    using assms(2) by (auto simp: io_read_def bindr_eq_Inr)
  from Session_OnRead_cases [OF r] have q: "sess_id s' = sess_id s"
    "q = client_emu st \<or> (\<exists>r. request_ok r \<and> q = snd (push (sess_id s, r) (client_emu st)))" by auto
  have old: "ringbuffer_ok (client_emu st)" "ringbuffer_capacity (client_emu st) = queue_capacity"
    "\<forall>req \<in> set (contents (client_emu st)). request_ok (snd req)"
    using assms(1) by (simp_all add: impl_ok_def)
  have "ringbuffer_ok q \<and> ringbuffer_capacity q = queue_capacity \<and> (\<forall>req \<in> set (contents q). request_ok (snd req))"
    using q(2)
  proof (elim disjE exE conjE)
    fix r assume r: "request_ok r" "q = snd (push (sess_id s, r) (client_emu st))"
    then show ?thesis using push_ok [OF old, of "(sess_id s, r)"] by simp
  qed (simp add: old)
  with assms(1) q(1) Some show ?thesis by (simp add: impl_ok_def st' routes_update)
qed

lemma popped_ok:
  assumes "impl_ok st"
  shows "pop (emu_client st) = (Some res, q) \<Longrightarrow> impl_ok (st\<lparr>emu_client := q\<rparr>) \<and> message_ok (snd res)"
    "pop (client_emu st) = (Some req, q') \<Longrightarrow> impl_ok (st\<lparr>client_emu := q'\<rparr>) \<and> request_ok (snd req)"
  using assms pop_ok [of "emu_client st" queue_capacity "\<lambda>res. message_ok (snd res)" "Some res" q]
    pop_ok [of "client_emu st" queue_capacity "\<lambda>req. request_ok (snd req)" "Some req" q']
  by (auto simp: impl_ok_def)

lemma system_step_ok: "system_step dump_float st st' \<Longrightarrow> impl_ok st \<Longrightarrow> impl_ok st'"
proof (induction rule: system_step.induct)
  case (accept st ec)
  then show ?case using routes_accept [of "server st" ec] by (simp add: impl_ok_def io_accept_def case_prod_unfold Let_def)
next
  case (read obj bytes ec n st st')
  then show ?case by (blast intro: wf_intros)
next
  case (written st obj ec n)
  then show ?case
    by (auto simp: impl_ok_def io_written_def Session_OnWrite_def routes_update split: option.splits)
next
  case (closed st obj)
  then show ?case by (simp add: impl_ok_def wf_intros)
next
  case (respond st res q st')
  then show ?case using popped_ok(1) [OF respond(3,1)] send_one_ok [of "st\<lparr>emu_client := q\<rparr>" res dump_float] by auto
next
  case (request st req q st')
  then show ?case using popped_ok(2) [OF request(3,1)] HandleRequest_ok by blast
next
  case (timing t st st')
  then show ?case using HandleTiming_ok [of st t] by (auto simp: impl_ok_def)
next
  case (stop st)
  then show ?case by (simp add: impl_ok_def Impl_stop_def)
qed

lemma reachable_ok: "system_reachable dump_float st \<Longrightarrow> impl_ok st"
  by (induction rule: system_reachable.induct) (auto simp: impl_ok_make intro: system_step_ok)

section \<open>What the loops compute\<close>

text \<open>The abstract emulator: the responses to a list of requests, and the guest afterwards.\<close>

fun serve :: "'m Config \<Rightarrow> client_request list \<Rightarrow> 'm \<Rightarrow> client_response list \<times> 'm" where
  "serve conf [] g = ([], g)"
| "serve conf ((k, Req_MemoryRead p) # reqs) g =
     (let (data, g1) = memory_read_callback conf (read_address p) (read_length p)
                         (replicate (unat (read_length p)) 0) g;
          (rs, g2) = serve conf reqs g1
      in ((k, Resp_MemoryRead (memory_read_response_make (packet_id p) data)) # rs, g2))"
| "serve conf ((k, Req_MemoryWrite p) # reqs) g =
     (let g1 = memory_write_callback conf (write_address p) (of_nat (length (write_data p))) (write_data p) g;
          (rs, g2) = serve conf reqs g1
      in ((k, Resp_MemoryWrite (memory_write_response_make (packet_id p))) # rs, g2))"
| "serve conf (_ # reqs) g = serve conf reqs g"

fun readable :: "request \<Rightarrow> bool" where
  "readable (Req_MemoryRead p) = (unat (read_length p) \<le> vector_max_size)"
| "readable _ = True"

lemma push_room:
  assumes "ringbuffer_ok q" and "length (contents q) < ringbuffer_capacity q"
  shows "ringbuffer_ok (snd (push x q)) \<and> ringbuffer_capacity (snd (push x q)) = ringbuffer_capacity q
     \<and> contents (snd (push x q)) = contents q @ [x]"
  using spsc.enqueue_spec [OF assms(1), of x "fst (push x q)" "snd (push x q)"] assms(2) by auto

lemma handle_each_serve:
  assumes "\<forall>req \<in> set reqs. request_ok (snd req) \<and> readable (snd req)"
    and "ringbuffer_ok (emu_client st)"
    and "length (contents (emu_client st)) + length reqs \<le> ringbuffer_capacity (emu_client st)"
  shows "\<exists>q. handle_each handle_client_request reqs st = Inr (st\<lparr>guest := snd (serve (config st) reqs (guest st)), emu_client := q\<rparr>)
     \<and> ringbuffer_ok q \<and> ringbuffer_capacity q = ringbuffer_capacity (emu_client st)
     \<and> contents q = contents (emu_client st) @ fst (serve (config st) reqs (guest st))"
  using assms
proof (induction reqs arbitrary: st)
  case Nil
  then show ?case by (intro exI [of _ "emu_client st"]) simp
next
  case (Cons req reqs)
  obtain k r where req: "req = (k, r)" by (cases req)
  then have "request_ok r" using Cons.prems by simp
  then show ?case
  proof (cases rule: HandleRequest_ok_cases [where ident = k and st = st])
    case (1 p)
    let ?cb = "memory_read_callback (config st) (read_address p) (read_length p) (replicate (unat (read_length p)) 0) (guest st)"
    let ?q = "snd (push (k, Resp_MemoryRead (memory_read_response_make (packet_id p) (fst ?cb))) (emu_client st))"
    let ?st = "st\<lparr>guest := snd ?cb, emu_client := ?q\<rparr>"
    have "HandleRequest k r st = Inr ?st"
      using 1 Cons.prems(1) by (simp add: req HandleMemoryRead_def Let_def case_prod_unfold)
    with Cons.IH [of ?st] Cons.prems push_room [of "emu_client st"] 1 show ?thesis
      by (auto simp: req Let_def case_prod_unfold)
  next
    case (2 p)
    let ?g = "memory_write_callback (config st) (write_address p) (of_nat (length (write_data p))) (write_data p) (guest st)"
    let ?q = "snd (push (k, Resp_MemoryWrite (memory_write_response_make (packet_id p))) (emu_client st))"
    let ?st = "st\<lparr>guest := ?g, emu_client := ?q\<rparr>"
    have "HandleRequest k r st = Inr ?st"
      using 2 by (simp add: HandleMemoryWrite_def Let_def case_prod_unfold)
    with Cons.IH [of ?st] Cons.prems push_room [of "emu_client st"] 2 show ?thesis
      by (auto simp: req Let_def case_prod_unfold)
  qed
qed

lemma request_loop_serve:
  assumes "impl_ok st" and "\<forall>req \<in> set (contents (client_emu st)). readable (snd req)"
    and "length (contents (emu_client st)) + length (contents (client_emu st)) \<le> queue_capacity"
  shows "\<exists>q1 q2. request_loop st = Some (Inr (st\<lparr>guest := snd (serve (config st) (contents (client_emu st)) (guest st)),
       client_emu := q1, emu_client := q2\<rparr>))
     \<and> contents q1 = [] \<and> contents q2 = contents (emu_client st) @ fst (serve (config st) (contents (client_emu st)) (guest st))
     \<and> ringbuffer_ok q1 \<and> ringbuffer_ok q2
     \<and> ringbuffer_capacity q1 = queue_capacity \<and> ringbuffer_capacity q2 = queue_capacity"
proof -
  have ok: "ringbuffer_ok (client_emu st)" using assms(1) by (simp add: impl_ok_def)
  obtain q1 where q1: "ringbuffer_ok q1" "ringbuffer_capacity q1 = ringbuffer_capacity (client_emu st)" "contents q1 = []"
    "request_loop st = Some (bindr (handle_each handle_client_request (contents (client_emu st)) st) (\<lambda>st'. Inr (st'\<lparr>client_emu := q1\<rparr>)))"
    using requests.work_in_order [OF ok] by blast
  obtain q2 where "handle_each handle_client_request (contents (client_emu st)) st
      = Inr (st\<lparr>guest := snd (serve (config st) (contents (client_emu st)) (guest st)), emu_client := q2\<rparr>)"
    "ringbuffer_ok q2" "ringbuffer_capacity q2 = queue_capacity"
    "contents q2 = contents (emu_client st) @ fst (serve (config st) (contents (client_emu st)) (guest st))"
    using handle_each_serve [of "contents (client_emu st)" st] assms by (auto simp: impl_ok_def)
  with q1 assms(1) show ?thesis
    by (intro exI [of _ q1] exI [of _ q2]) (simp add: impl_ok_def)
qed

lemma sends_ok:
  assumes "impl_ok st" and "\<forall>res \<in> set rs. message_ok (snd res)"
  shows "\<exists>st'. handle_each (send_one dump_float) rs st = Inr st' \<and> impl_ok st' \<and> client_emu st' = client_emu st
     \<and> emu_client st' = emu_client st \<and> guest st' = guest st \<and> config st' = config st \<and> stopped st' = stopped st"
  using assms
proof (induction rs arbitrary: st)
  case (Cons res rs)
  from send_one_ok [OF Cons.prems(1), of res dump_float] Cons.prems(2) obtain st1 where
    st1: "send_one dump_float res st = Inr st1" "impl_ok st1" "client_emu st1 = client_emu st"
    "emu_client st1 = emu_client st" "guest st1 = guest st" "config st1 = config st" "stopped st1 = stopped st" by auto
  from Cons.IH [OF st1(2)] Cons.prems(2) show ?case by (auto simp: st1)
qed simp

lemma respond_loop_ok:
  assumes "impl_ok st"
  shows "\<exists>st'. respond_loop dump_float st = Some (Inr st') \<and> impl_ok st' \<and> contents (emu_client st') = []
     \<and> client_emu st' = client_emu st \<and> guest st' = guest st \<and> config st' = config st \<and> stopped st' = stopped st"
proof -
  have ok: "ringbuffer_ok (emu_client st)" using assms by (simp add: impl_ok_def)
  obtain q where q: "ringbuffer_ok q" "ringbuffer_capacity q = ringbuffer_capacity (emu_client st)" "contents q = []"
    "respond_loop dump_float st = Some (bindr (handle_each (send_one dump_float) (contents (emu_client st)) st) (\<lambda>st'. Inr (st'\<lparr>emu_client := q\<rparr>)))"
    using respond.work_in_order [OF ok] by blast
  obtain st' where "handle_each (send_one dump_float) (contents (emu_client st)) st = Inr st'" "impl_ok st'"
    "client_emu st' = client_emu st" "guest st' = guest st" "config st' = config st" "stopped st' = stopped st"
    using sends_ok [OF assms, of "contents (emu_client st)" dump_float] assms by (auto simp: impl_ok_def)
  with q assms show ?thesis by (auto simp: impl_ok_def)
qed


lemma serve_messages: "\<forall>res \<in> set (fst (serve conf reqs g)). message_ok (snd res)"
proof (induction reqs arbitrary: g)
  case (Cons req reqs)
  then show ?case
    by (cases req; cases "snd req") (simp_all add: Let_def NoneError_def case_prod_unfold)
qed simp

lemma process_events_ok:
  assumes "impl_ok st" and "\<not> stopped st" and "\<forall>req \<in> set (contents (client_emu st)). readable (snd req)"
  shows "\<exists>st1 st'. respond_loop dump_float st = Some (Inr st1)
     \<and> process_events_iteration dump_float st = Some (Inr (True, st')) \<and> contents (client_emu st') = []
     \<and> contents (emu_client st') = fst (serve (config st) (contents (client_emu st)) (guest st))
     \<and> guest st' = snd (serve (config st) (contents (client_emu st)) (guest st))
     \<and> impl_ok st' \<and> server st' = server st1 \<and> net st' = net st1 \<and> config st' = config st \<and> stopped st' = stopped st"
proof -
  obtain st1 where st1: "respond_loop dump_float st = Some (Inr st1)" "impl_ok st1" "contents (emu_client st1) = []"
    "client_emu st1 = client_emu st" "guest st1 = guest st" "config st1 = config st" "stopped st1 = stopped st"
    using respond_loop_ok [OF assms(1)] by blast
  have "length (contents (client_emu st)) \<le> queue_capacity"
    using spsc.bound [of "client_emu st"] assms(1) by (simp add: impl_ok_def)
  with request_loop_serve [OF st1(2)] st1 assms(3) obtain q1 q2 where q:
    "request_loop st1 = Some (Inr (st1\<lparr>guest := snd (serve (config st) (contents (client_emu st)) (guest st)),
       client_emu := q1, emu_client := q2\<rparr>))"
    "contents q1 = []" "contents q2 = fst (serve (config st) (contents (client_emu st)) (guest st))"
    "ringbuffer_ok q1" "ringbuffer_ok q2" "ringbuffer_capacity q1 = queue_capacity" "ringbuffer_capacity q2 = queue_capacity"
    by auto
  then have "impl_ok (st1\<lparr>guest := snd (serve (config st) (contents (client_emu st)) (guest st)),
       client_emu := q1, emu_client := q2\<rparr>)"
    using st1(2) serve_messages [of "config st" "contents (client_emu st)" "guest st"] by (simp add: impl_ok_def)
  with q st1 assms(2) show ?thesis by (auto simp: process_events_iteration_def)
qed

lemma blocking_loop_cases:
  assumes "ringbuffer_ok (client_emu st)"
  shows "\<exists>q. contents q = [] \<and> blocking_loop st = Some
     (case contents (client_emu st) of
        [] \<Rightarrow> Inr (st\<lparr>client_emu := q\<rparr>)
      | [req] \<Rightarrow> bindr (process req) (\<lambda>_. Inr (st\<lparr>client_emu := q\<rparr>))
      | _ \<Rightarrow> Inl output_overrun)"
proof -
  obtain xs q where d: "pop_to_output_iterator (client_emu st) = (xs, q)" by fastforce
  from spsc.drain_spec [OF assms d] have q: "ringbuffer_ok q" "xs = contents (client_emu st)" "contents q = []" by simp_all
  note unfold = blocking_loop.simps [of st]
  consider "xs = []" | req where "xs = [req]" | a b ys where "xs = a # b # ys" by (metis list.exhaust)
  then show ?thesis
  proof cases
    case 2
    obtain q' where "blocking_loop (st\<lparr>client_emu := q\<rparr>) = Some (Inr (st\<lparr>client_emu := q'\<rparr>))" "contents q' = []"
      using blocking_empty [of "st\<lparr>client_emu := q\<rparr>"] q by auto
    with 2 d q(2) show ?thesis
      by (intro exI [of _ q'], cases "process req") (simp_all add: unfold)
  qed (use d q unfold in \<open>auto intro: exI [of _ q]\<close>)
qed

section \<open>A concrete guest\<close>

text \<open>
  A flat memory as the guest, for concrete instances: the read callback fills the buffer from the
  memory, the write callback stores the bytes, every other callback does nothing.
\<close>

definition flat_config :: "(u64 \<Rightarrow> u8) Config" where
  "flat_config = Config.make
     (\<lambda>a n d g. (map (\<lambda>i. g (a + of_nat i)) [0..<length d], g))
     (\<lambda>a n d g. \<lambda>x. if unat (x - a) < length d then d ! unat (x - a) else g x)
     (\<lambda>f d g. (d, g)) (\<lambda>f n d g. g) (\<lambda>f d g. (d, g)) (\<lambda>f n d g. g)
     (\<lambda>n g. (False, g)) (\<lambda>n g. (False, g)) (\<lambda>f g. (False, g))
     (\<lambda>i x y w h g. (False, g)) (\<lambda>i x y t g. (False, g)) False False False"

definition flat_start :: "(u64 \<Rightarrow> u8) impl" where
  "flat_start = EmuRPC_make flat_config False True (\<lambda>_. 0)"

definition flat_read :: memory_read where
  "flat_read = memory_read_make 7 Immediate NonBlocking Once 0x100 2"

text \<open>A client has connected and sent one request.\<close>

definition flat_busy :: "(u64 \<Rightarrow> u8) impl" where
  "flat_busy = (io_accept False flat_start)
     \<lparr>server := (server (io_accept False flat_start)) \<lparr>objects := [0 \<mapsto> Session_make 0]\<rparr>,
      client_emu := snd (push (0, Req_MemoryRead flat_read) (ringbuffer_init queue_capacity)),
      net := net (io_accept False flat_start) @ [Async_read]\<rparr>"

lemma flat_busy_read: "io_read 0 (wire (memory_read_value flat_read)) False 1 (io_accept False flat_start) = Inr flat_busy"
proof -
  have "JSON_DeserializeRequest (wire (memory_read_value flat_read)) = Inr (Req_MemoryRead flat_read)"
    by (rule Deserialize_read) (simp add: flat_read_def)
  then show ?thesis
    by (simp add: io_read_def io_accept_def flat_busy_def flat_start_def EmuRPC_make_def Listener_OnAccept_def
        Listener_Run_def Listener_make_def Session_Run_def Session_make_def Session_OnRead_ok)
qed

lemma flat_reachable: "system_reachable dump_float flat_start" "system_reachable dump_float flat_busy"
proof -
  show start: "system_reachable dump_float flat_start"
    unfolding flat_start_def by (rule system_reachable.start)
  have "system_reachable dump_float (io_accept False flat_start)"
    by (rule system_reachable.step [OF start system_step.accept])
  then show "system_reachable dump_float flat_busy"
    by (rule system_reachable.step) (rule system_step.read [OF flat_busy_read])
qed

lemma flat_busy_fields [simp]:
  "contents (client_emu flat_busy) = [(0, Req_MemoryRead flat_read)]" "contents (emu_client flat_busy) = []"
  "stopped flat_busy = False" "config flat_busy = flat_config" "guest flat_busy = (\<lambda>_. 0)"
proof -
  show "contents (client_emu flat_busy) = [(0, Req_MemoryRead flat_read)]"
    using push_room [of "ringbuffer_init queue_capacity :: ClientEmuQueue" "(0, Req_MemoryRead flat_read)"]
    by (simp add: flat_busy_def queue_capacity_def)
qed (simp_all add: flat_busy_def flat_start_def io_accept_def EmuRPC_make_def Listener_Run_def Let_def case_prod_unfold)

section \<open>Properties\<close>











text \<open>
  a request for the GPU, for special fields or with a command of the right class is
  accepted and has no effect: no callback runs and no response is queued.
\<close>

theorem HandleRequest_unanswered:
  assumes "packet_method (request_base r) \<in> {Method_GPURead, Method_GPUWrite, Method_SpecialRead, Method_SpecialWrite}
     \<or> packet_method (request_base r) = Method_Command \<and> (\<exists>c. r = Req_SaveState c \<or> (\<exists>d. r = Req_LoadState d))"
  shows "HandleRequest ident r st = Inr st"
  using assms by (auto simp: HandleRequest_def HandleCommand_def)

theorem HandleRequest_unanswered_witness:
  "HandleRequest 3 (Req_Packet (request_packet_make 1 Method_GPURead Immediate Blocking Once)) flat_start = Inr flat_start"
  by (rule HandleRequest_unanswered) (simp add: request_packet_make_def)

text \<open>
  C33: when \<open>emu_client\<close> is full a memory write still runs its callback, and its response is
  dropped without a trace.
\<close>

theorem HandleRequest_response_lost:
  assumes "packet_method p = Method_MemoryWrite" and "ringbuffer_ok (emu_client st)"
    and "length (contents (emu_client st)) = ringbuffer_capacity (emu_client st)"
  shows "\<exists>st'. HandleRequest ident (Req_MemoryWrite p) st = Inr st'
     \<and> guest st' = memory_write_callback (config st) (write_address p) (of_nat (length (write_data p))) (write_data p) (guest st)
     \<and> contents (emu_client st') = contents (emu_client st)"
proof -
  let ?x = "(ident, Resp_MemoryWrite (memory_write_response_make (packet_id p)))"
  have "contents (snd (push ?x (emu_client st))) = contents (emu_client st)"
    using spsc.enqueue_spec [OF assms(2), of ?x "fst (push ?x (emu_client st))" "snd (push ?x (emu_client st))"] assms(3)
    by auto
  with assms(1) show ?thesis by (simp add: HandleRequest_def HandleMemoryWrite_def Let_def case_prod_unfold)
qed

theorem HandleRequest_response_lost_witness:
  "\<exists>st'. HandleRequest 0 (Req_MemoryWrite (memory_write_make 1 Immediate Blocking Once 0 [9]))
        (flat_start\<lparr>emu_client := ringbuffer_init 0\<rparr>) = Inr st'
     \<and> guest st' 0 = 9 \<and> contents (emu_client st') = []"
  using HandleRequest_response_lost [of "memory_write_make 1 Immediate Blocking Once 0 [9]" "flat_start\<lparr>emu_client := ringbuffer_init 0\<rparr>" 0]
  by (auto simp: flat_start_def EmuRPC_make_def flat_config_def Config.defs Let_def case_prod_unfold)

text \<open>
  C30: \<open>HandleTiming\<close> returns in every reachable state and throws every queued request away: no
  callback runs, no response is queued, and the call does not wait, whether or not the emulator
  is to block.
\<close>

theorem HandleTiming_discards:
  assumes "system_reachable dump_float st"
  shows "\<exists>q. HandleTiming t st = Some (Inr (st\<lparr>client_emu := q\<rparr>)) \<and> contents q = []"
  using HandleTiming_ok [OF reachable_ok [OF assms]] by blast

theorem HandleTiming_discards_witness:
  "\<exists>q. HandleTiming FrameEnd flat_busy = Some (Inr (flat_busy\<lparr>client_emu := q\<rparr>)) \<and> contents q = []
     \<and> contents (client_emu flat_busy) \<noteq> []"
  using HandleTiming_discards [OF flat_reachable(2)] by simp

text \<open>
  C31: the loop of the blocking branch ends for every queue, after at most two rounds: it returns
  when the queue is empty, which is not the \<open>Continue\<close> command it is meant to wait for, and it
  writes past the variable \<open>message\<close> when two or more requests are queued.
\<close>

theorem blocking_loop_result:
  assumes "ringbuffer_ok (client_emu st)"
  shows "\<exists>q. contents q = [] \<and> blocking_loop st = Some
     (case contents (client_emu st) of
        [] \<Rightarrow> Inr (st\<lparr>client_emu := q\<rparr>)
      | [req] \<Rightarrow> bindr (process req) (\<lambda>_. Inr (st\<lparr>client_emu := q\<rparr>))
      | _ \<Rightarrow> Inl output_overrun)"
  using assms by (rule blocking_loop_cases)

theorem blocking_loop_result_witness:
  "\<exists>q. contents q = [] \<and> blocking_loop flat_busy = Some (Inr (flat_busy\<lparr>client_emu := q\<rparr>))"
proof -
  have "ringbuffer_ok (client_emu flat_busy)" using reachable_ok [OF flat_reachable(2)] by (simp add: impl_ok_def)
  from blocking_loop_result [OF this] show ?thesis by (simp add: process_ok flat_read_def)
qed

text \<open>
  \<open>convert_config\<close> passes each callback and each flag of the C configuration to the member of
  the C++ configuration with the same name.
\<close>

lemma convert_config_members:
  "memory_read_callback (convert_config c) = c_memory_read_callback c
   \<and> memory_write_callback (convert_config c) = c_memory_write_callback c
   \<and> gpu_read_callback (convert_config c) = c_gpu_read_callback c
   \<and> gpu_write_callback (convert_config c) = c_gpu_write_callback c
   \<and> special_read_callback (convert_config c) = c_special_read_callback c
   \<and> special_write_callback (convert_config c) = c_special_write_callback c
   \<and> save_state_callback (convert_config c) = c_save_state_callback c
   \<and> load_state_callback (convert_config c) = c_load_state_callback c
   \<and> load_rom_callback (convert_config c) = c_load_rom_callback c
   \<and> create_overlay_callback (convert_config c) = c_create_overlay_callback c
   \<and> draw_overlay_text_callback (convert_config c) = c_draw_overlay_text_callback c
   \<and> enable_memory_access_timing (convert_config c) = c_enable_memory_access_timing c
   \<and> enable_gpu_access_timing (convert_config c) = c_enable_gpu_access_timing c
   \<and> enable_special_access_timing (convert_config c) = c_enable_special_access_timing c"
  by (simp add: convert_config_def Config.defs)

end
