(* ===== verification/Utf8_Checker.thy ===== *)
theory Utf8_Checker
  imports Utf8
begin

text \<open>
  The incremental UTF-8 validator a websocket runs on the payload of text messages
  (\<^verbatim>\<open>src/externals/boost/boost/beast/websocket/detail/utf8_checker.hpp\<close>): the class
  \<open>utf8_checker_t\<close> with its buffer for a code point that a segment splits, its loop over
  machine words and its check of incomplete code points. It is proved to accept exactly
  RFC 3629 however the text is cut into segments and wherever they lie in memory.
\<close>

section \<open>The class\<close>

text \<open>
  \<open>utf8_need\<close> is \<open>need_\<close>; \<open>utf8_cp\<close> is the part of the array \<open>cp_\<close> before the pointer \<open>p_\<close>.
\<close>

record utf8_checker =
  utf8_need :: nat
  utf8_cp :: "u8 list"

definition utf8_checker_init :: utf8_checker where
  "utf8_checker_init = \<lparr>utf8_need = 0, utf8_cp = []\<rparr>"

definition utf8_reset :: "utf8_checker \<Rightarrow> utf8_checker" where
  "utf8_reset c = c\<lparr>utf8_need := 0, utf8_cp := []\<rparr>"

definition utf8_finish :: "utf8_checker \<Rightarrow> bool \<times> utf8_checker" where
  "utf8_finish c = (utf8_need c = 0, utf8_reset c)"

text \<open>
  The lambda \<open>valid\<close> checks the code point that starts at a pointer and moves the pointer behind
  it. \<open>Overrun\<close> stands for a read behind the end of the bytes.
\<close>

datatype valid_result = Overrun | Malformed | Rest "u8 list"

fun valid :: "u8 list \<Rightarrow> valid_result" where
  "valid [] = Overrun"
| "valid (p0 # t) =
     (if p0 < 128 then Rest t
      else if p0 AND 0xe0 = 0xc0 then
        (case t of
           p1 # t' \<Rightarrow> if p1 AND 0xc0 \<noteq> 0x80 \<or> p0 AND 0x1e = 0 then Malformed else Rest t'
         | _ \<Rightarrow> Overrun)
      else if p0 AND 0xf0 = 0xe0 then
        (case t of
           p1 # p2 # t' \<Rightarrow>
             if p1 AND 0xc0 \<noteq> 0x80 \<or> p2 AND 0xc0 \<noteq> 0x80 \<or> p0 = 0xe0 \<and> p1 AND 0x20 = 0
               \<or> p0 = 0xed \<and> p1 AND 0x20 = 0x20
             then Malformed else Rest t'
         | _ \<Rightarrow> Overrun)
      else if p0 AND 0xf8 = 0xf0 then
        (case t of
           p1 # p2 # p3 # t' \<Rightarrow>
             if p0 AND 0x07 \<ge> 0x05 \<or> p1 AND 0xc0 \<noteq> 0x80 \<or> p2 AND 0xc0 \<noteq> 0x80 \<or> p3 AND 0xc0 \<noteq> 0x80
               \<or> p0 = 0xf0 \<and> p1 AND 0x30 = 0 \<or> p0 = 0xf4 \<and> p1 > 0x8f \<or> p0 > 0xf4
             then Malformed else Rest t'
         | _ \<Rightarrow> Overrun)
      else Malformed)"

text \<open>The lambda \<open>fail_fast\<close>: whether the one to three bytes read so far rule out every code point.\<close>

fun fail_fast :: "u8 list \<Rightarrow> bool" where
  "fail_fast [p0] =
     (if p0 < 128 then False
      else if p0 AND 0xe0 = 0xc0 then p0 AND 0x1e = 0
      else if p0 AND 0xf0 = 0xe0 then False
      else if p0 AND 0xf8 = 0xf0 then p0 AND 0x07 \<ge> 0x05
      else True)"
| "fail_fast [p0, p1] =
     (if p0 < 128 then False
      else if p0 AND 0xe0 = 0xc0 then p1 AND 0xc0 \<noteq> 0x80 \<or> p0 AND 0x1e = 0
      else if p0 AND 0xf0 = 0xe0 then
        p1 AND 0xc0 \<noteq> 0x80 \<or> p0 = 0xe0 \<and> p1 AND 0x20 = 0 \<or> p0 = 0xed \<and> p1 AND 0x20 = 0x20
      else if p0 AND 0xf8 = 0xf0 then
        p0 AND 0x07 \<ge> 0x05 \<or> p1 AND 0xc0 \<noteq> 0x80 \<or> p0 = 0xf0 \<and> p1 AND 0x30 = 0
        \<or> p0 = 0xf4 \<and> p1 > 0x8f \<or> p0 > 0xf4
      else True)"
| "fail_fast [p0, p1, p2] =
     (if p0 < 128 then False
      else if p0 AND 0xe0 = 0xc0 then p1 AND 0xc0 \<noteq> 0x80 \<or> p0 AND 0x1e = 0
      else if p0 AND 0xf0 = 0xe0 then
        p1 AND 0xc0 \<noteq> 0x80 \<or> p2 AND 0xc0 \<noteq> 0x80 \<or> p0 = 0xe0 \<and> p1 AND 0x20 = 0
        \<or> p0 = 0xed \<and> p1 AND 0x20 = 0x20
      else if p0 AND 0xf8 = 0xf0 then
        p0 AND 0x07 \<ge> 0x05 \<or> p1 AND 0xc0 \<noteq> 0x80 \<or> p2 AND 0xc0 \<noteq> 0x80 \<or> p0 = 0xf0 \<and> p1 AND 0x30 = 0
        \<or> p0 = 0xf4 \<and> p1 > 0x8f \<or> p0 > 0xf4
      else True)"
| "fail_fast (p0 # _) = (\<not> p0 < 128)"
| "fail_fast [] = True"

definition needed :: "u8 \<Rightarrow> nat" where
  "needed v =
     (if v < 128 then 1 else if v < 192 then 0 else if v < 224 then 2 else if v < 240 then 3
      else if v < 248 then 4 else 0)"

text \<open>
  The slow loop checks one code point at a time while more than three bytes are left; the loop
  behind the fast loop is the same one.
\<close>

lemma valid_Rest_length: "valid bs = Rest r \<Longrightarrow> length r < length bs"
  by (cases bs) (auto split: if_splits list.splits)

function slow_loop :: "u8 list \<Rightarrow> valid_result" where
  "slow_loop bs =
     (if 3 < length bs then (case valid bs of Rest r \<Rightarrow> slow_loop r | v \<Rightarrow> v) else Rest bs)"
  by auto
termination
  by (relation "measure length") (auto dest: valid_Rest_length)

declare slow_loop.simps [simp del]

text \<open>
  The loop that brings the pointer to a multiple of eight and the loop over words of eight
  bytes. Their flag is false when they meet a byte of 128 or more and leave for the slow loop.
\<close>

fun align_loop :: "nat \<Rightarrow> u8 list \<Rightarrow> (bool \<times> u8 list) option" where
  "align_loop 0 bs = Some (True, bs)"
| "align_loop (Suc n) [] = None"
| "align_loop (Suc n) (b # bs) = (if b AND 0x80 \<noteq> 0 then Some (False, b # bs) else align_loop n bs)"

definition load_size_t :: "u8 list \<Rightarrow> u64" where
  "load_size_t bs = foldr (\<lambda>b w. ucast b OR push_bit 8 w) (take 8 bs) 0"

function fast_loop :: "u8 list \<Rightarrow> u8 list" where
  "fast_loop bs =
     (if 7 < length bs \<and> load_size_t bs AND 0x8080808080808080 = 0 then fast_loop (drop 8 bs) else bs)"
  by auto
termination
  by (relation "measure length") auto

declare fast_loop.simps [simp del]

text \<open>The loop \<open>tail\<close> over the last bytes, which stores a code point that is not complete.\<close>

function tail_loop :: "utf8_checker \<Rightarrow> u8 list \<Rightarrow> (bool \<times> utf8_checker) option" where
  "tail_loop c bs =
     (if bs = [] then Some (True, c)
      else let n = length bs; need = needed (hd bs) in
        if need = 0 then Some (False, c)
        else if need \<le> n then
          (case valid bs of Rest r \<Rightarrow> tail_loop c r | Malformed \<Rightarrow> Some (False, c) | Overrun \<Rightarrow> None)
        else let cp = utf8_cp c @ bs in
          if 4 < length cp then None
          else Some (\<not> fail_fast cp, c\<lparr>utf8_need := need - n, utf8_cp := cp\<rparr>))"
  by auto
termination
  by (relation "measure (\<lambda>(c, bs). length bs)") (auto dest: valid_Rest_length)

declare tail_loop.simps [simp del]

definition utf8_rest :: "utf8_checker \<Rightarrow> u8 list \<Rightarrow> (bool \<times> utf8_checker) option" where
  "utf8_rest c bs =
     (case slow_loop bs of Rest r \<Rightarrow> tail_loop c r | Malformed \<Rightarrow> Some (False, c) | Overrun \<Rightarrow> None)"

definition utf8_body :: "nat \<Rightarrow> utf8_checker \<Rightarrow> u8 list \<Rightarrow> (bool \<times> utf8_checker) option" where
  "utf8_body a c bs =
     (if length bs \<le> 8 then utf8_rest c bs
      else case align_loop ((a + 7) div 8 * 8 - a) bs of
        None \<Rightarrow> None
      | Some (False, r) \<Rightarrow> utf8_rest c r
      | Some (True, r) \<Rightarrow> utf8_rest c (fast_loop r))"

text \<open>
  \<open>write\<close> of a segment that lies at the address \<open>a\<close>. The value \<^term>\<open>None\<close> stands for an access
  outside the segment or the array \<open>cp_\<close>.
\<close>

definition utf8_write :: "nat \<Rightarrow> u8 list \<Rightarrow> utf8_checker \<Rightarrow> (bool \<times> utf8_checker) option" where
  "utf8_write a bs c =
     (if 0 < utf8_need c then
        let n = min (length bs) (utf8_need c);
            cp = utf8_cp c @ take n bs;
            c' = c\<lparr>utf8_need := utf8_need c - n, utf8_cp := cp\<rparr>
        in if 4 < length cp then None
           else if 0 < utf8_need c' then Some (\<not> fail_fast cp, c')
           else case valid cp of
             Overrun \<Rightarrow> None
           | Malformed \<Rightarrow> Some (False, c')
           | Rest _ \<Rightarrow> utf8_body (a + n) (c'\<lparr>utf8_cp := []\<rparr>) (drop n bs)
      else utf8_body a c bs)"

fun utf8_write_buffers :: "(nat \<times> u8 list) list \<Rightarrow> utf8_checker \<Rightarrow> (bool \<times> utf8_checker) option" where
  "utf8_write_buffers [] c = Some (True, c)"
| "utf8_write_buffers ((a, bs) # bufs) c =
     (case utf8_write a bs c of
        None \<Rightarrow> None
      | Some (ok, c') \<Rightarrow> if ok then utf8_write_buffers bufs c' else Some (False, c'))"

definition check_utf8 :: "nat \<Rightarrow> u8 list \<Rightarrow> bool option" where
  "check_utf8 a bs =
     (case utf8_write a bs utf8_checker_init of
        None \<Rightarrow> None
      | Some (ok, c) \<Rightarrow> Some (ok \<and> fst (utf8_finish c)))"

section \<open>Bit tests as ranges\<close>

lemma and_field:
  fixes b w :: u8
  assumes "uint w = (2 ^ k - 1) * 2 ^ m"
  shows "uint (b AND w) = uint b div 2 ^ m mod 2 ^ k * 2 ^ m"
proof -
  have "uint b AND push_bit m (mask k) = push_bit m (take_bit k (drop_bit m (uint b)))"
    by (rule bit_eqI) (auto simp: bit_simps)
  moreover have "uint w = push_bit m (mask k)" using assms by (simp add: push_bit_eq_mult mask_eq_exp_minus_1)
  ultimately have "uint (b AND w) = push_bit m (take_bit k (drop_bit m (uint b)))" by (simp only: unsigned_and_eq)
  then show ?thesis by (simp only: push_bit_eq_mult take_bit_eq_mod drop_bit_eq_div)
qed

lemma uint_byte_less: "uint (b :: u8) < 256"
  using unsigned_less [of b, where 'a = int] by simp

lemma uint_byte_nonneg: "0 \<le> uint (b :: u8)"
  by simp

lemma and_high:
  fixes b w :: u8
  assumes "uint w = (2 ^ k - 1) * 2 ^ m" and "m + k = 8"
  shows "uint (b AND w) = uint b div 2 ^ m * 2 ^ m"
proof -
  have "take_bit k (drop_bit m (uint b)) = drop_bit m (take_bit (k + m) (uint b))" by (rule take_bit_drop_bit)
  also have "take_bit (k + m) (uint b) = uint b"
    using uint_byte_less [of b] assms(2) by (simp add: add.commute take_bit_eq_mod)
  finally show ?thesis using and_field [OF assms(1)] by (simp add: take_bit_eq_mod drop_bit_eq_div)
qed

lemma lead2: "b AND 0xe0 = (0xc0 :: u8) \<longleftrightarrow> 0xC0 \<le> uint b \<and> uint b \<le> 0xDF"
  by (simp add: word_uint_eq_iff and_high [where k = 3 and m = 5], safe; linarith)

lemma lead3: "b AND 0xf0 = (0xe0 :: u8) \<longleftrightarrow> 0xE0 \<le> uint b \<and> uint b \<le> 0xEF"
  by (simp add: word_uint_eq_iff and_high [where k = 4 and m = 4], safe; linarith)

lemma lead4: "b AND 0xf8 = (0xf0 :: u8) \<longleftrightarrow> 0xF0 \<le> uint b \<and> uint b \<le> 0xF7"
  by (simp add: word_uint_eq_iff and_high [where k = 5 and m = 3], safe; linarith)

lemma continuation: "b AND 0xc0 = (0x80 :: u8) \<longleftrightarrow> 0x80 \<le> uint b \<and> uint b \<le> 0xBF"
  by (simp add: word_uint_eq_iff and_high [where k = 2 and m = 6], safe; linarith)

lemma overlong2: "0xC0 \<le> uint b \<Longrightarrow> uint b \<le> 0xDF \<Longrightarrow> b AND 0x1e = (0 :: u8) \<longleftrightarrow> uint b \<le> 0xC1"
  by (simp add: word_uint_eq_iff and_field [where k = 4 and m = 1]) presburger

lemma second_bit5: "0x80 \<le> uint b \<Longrightarrow> uint b \<le> 0xBF \<Longrightarrow> b AND 0x20 = (0 :: u8) \<longleftrightarrow> uint b < 0xA0"
  by (simp add: word_uint_eq_iff and_field [where k = 1 and m = 5]) presburger

lemma second_bit5_set: "0x80 \<le> uint b \<Longrightarrow> uint b \<le> 0xBF \<Longrightarrow> b AND 0x20 = (0x20 :: u8) \<longleftrightarrow> 0xA0 \<le> uint b"
  by (simp add: word_uint_eq_iff and_field [where k = 1 and m = 5]) presburger

lemma overlong4: "0x80 \<le> uint b \<Longrightarrow> uint b \<le> 0xBF \<Longrightarrow> b AND 0x30 = (0 :: u8) \<longleftrightarrow> uint b < 0x90"
  by (simp add: word_uint_eq_iff and_field [where k = 2 and m = 4]) presburger

lemma too_large: "0xF0 \<le> uint b \<Longrightarrow> uint b \<le> 0xF7 \<Longrightarrow> b AND 0x07 \<ge> (0x05 :: u8) \<longleftrightarrow> 0xF5 \<le> uint b"
  by (simp add: word_le_def and_field [where k = 3 and m = 0]) presburger

lemma high_bit: "b AND 0x80 = (0 :: u8) \<longleftrightarrow> uint b < 128"
  by (simp add: word_uint_eq_iff and_high [where k = 1 and m = 7]) (use uint_byte_less [of b] uint_byte_nonneg [of b] in linarith)

lemma byte_less_numeral: "(b :: u8) < numeral n \<longleftrightarrow> uint b < uint (numeral n :: u8)"
  by (simp only: word_less_def)

lemma byte_eq_numeral: "(b :: u8) = numeral n \<longleftrightarrow> uint b = uint (numeral n :: u8)"
  by (simp only: word_uint_eq_iff)

lemma byte_greater_numeral: "numeral n < (b :: u8) \<longleftrightarrow> uint (numeral n :: u8) < uint b"
  by (simp only: word_less_def)

lemmas bit_ranges = lead2 lead3 lead4 continuation overlong2 second_bit5 second_bit5_set overlong4 too_large
  byte_less_numeral byte_greater_numeral

section \<open>The bytes still expected\<close>

text \<open>
  \<open>utf8_run rs bs\<close> are the ranges expected after the bytes \<open>bs\<close> when \<open>rs\<close> are expected before
  them, \<^term>\<open>None\<close> when the bytes are not part of any well-formed text.
\<close>

fun utf8_run :: "(int \<times> int) list \<Rightarrow> u8 list \<Rightarrow> (int \<times> int) list option" where
  "utf8_run rs [] = Some rs"
| "utf8_run ((lo, hi) # rs) (b # bs) =
     (if lo \<le> uint b \<and> uint b \<le> hi then utf8_run rs bs else None)"
| "utf8_run [] (b # bs) = (case utf8_ranges (uint b) of Some rs \<Rightarrow> utf8_run rs bs | None \<Rightarrow> None)"

lemma utf8_run_append: "utf8_run rs (u @ v) = Option.bind (utf8_run rs u) (\<lambda>rs'. utf8_run rs' v)"
  by (induction rs u rule: utf8_run.induct) (auto split: option.splits)

lemma of_char_of_byte: "(of_char (char_of_byte b) :: int) = uint b"
proof -
  have "(of_char (char_of_byte b) :: int) = int (of_char (char_of_byte b))" by (simp add: of_nat_of_char)
  also have "\<dots> = int (unat b)" using unsigned_less [of b, where 'a = nat] by (simp add: char_of_byte_def)
  finally show ?thesis by simp
qed

lemma utf8_valid_run: "utf8_valid_pending rs (map char_of_byte bs) \<longleftrightarrow> utf8_run rs bs = Some []"
  by (induction rs bs rule: utf8_run.induct) (auto simp: of_char_of_byte split: option.splits)

text \<open>Every byte sequence that is not ruled out can be completed.\<close>

lemma utf8_ranges_inhabited: "utf8_ranges b = Some rs \<Longrightarrow> (lo, hi) \<in> set rs \<Longrightarrow> 0 \<le> lo \<and> lo \<le> hi \<and> lo < 256"
  by (auto simp: utf8_ranges_def split: if_splits)

lemma utf8_run_inhabited:
  assumes "utf8_run rs bs = Some rs'" and "\<forall>(lo, hi) \<in> set rs. 0 \<le> lo \<and> lo \<le> hi \<and> lo < 256"
  shows "\<forall>(lo, hi) \<in> set rs'. 0 \<le> lo \<and> lo \<le> hi \<and> lo < 256"
  using assms
  by (induction rs bs rule: utf8_run.induct) (auto split: option.splits if_splits dest: utf8_ranges_inhabited)

lemma utf8_run_completion:
  assumes "\<forall>(lo, hi) \<in> set rs. 0 \<le> lo \<and> lo \<le> hi \<and> lo < 256"
  shows "utf8_run rs (map (\<lambda>(lo, hi). word_of_int lo) rs) = Some []"
  using assms by (induction rs) (auto simp: uint_word_of_int)

lemma utf8_run_completable: "(\<exists>t. utf8_run [] (bs @ t) = Some []) \<longleftrightarrow> utf8_run [] bs \<noteq> None"
proof
  assume "\<exists>t. utf8_run [] (bs @ t) = Some []"
  then show "utf8_run [] bs \<noteq> None" by (auto simp: utf8_run_append bind_eq_Some_conv)
next
  assume "utf8_run [] bs \<noteq> None"
  then obtain rs where rs: "utf8_run [] bs = Some rs" by blast
  then have "utf8_run rs (map (\<lambda>(lo, hi). word_of_int lo) rs) = Some []"
    by (intro utf8_run_completion utf8_run_inhabited [OF rs]) simp
  with rs have "utf8_run [] (bs @ map (\<lambda>(lo, hi). word_of_int lo) rs) = Some []" by (simp add: utf8_run_append)
  then show "\<exists>t. utf8_run [] (bs @ t) = Some []" ..
qed

section \<open>The code point checks\<close>

lemma needed_uint:
  "needed b =
     (if uint b < 128 then 1 else if uint b < 192 then 0 else if uint b < 224 then 2
      else if uint b < 240 then 3 else if uint b < 248 then 4 else 0)"
  by (simp add: needed_def byte_less_numeral)

lemma needed_le: "needed b \<le> 4"
  by (simp add: needed_def)

lemma utf8_ranges_needed: "utf8_ranges (uint b) = Some rs \<Longrightarrow> needed b = Suc (length rs)"
  by (auto simp: utf8_ranges_def needed_uint split: if_splits)

lemma needed_zero: "bs \<noteq> [] \<Longrightarrow> needed (hd bs) = 0 \<Longrightarrow> utf8_run [] bs = None"
  by (cases bs) (auto split: option.splits dest: utf8_ranges_needed)

lemma valid_spec:
  assumes "bs \<noteq> []" and "needed (hd bs) \<le> length bs"
  shows "valid bs = Malformed \<and> utf8_run [] bs = None
    \<or> valid bs = Rest (drop (needed (hd bs)) bs) \<and> utf8_run [] (take (needed (hd bs)) bs) = Some []"
proof -
  obtain p0 t where bs: "bs = p0 # t" using assms(1) by (cases bs) auto
  consider "uint p0 < 128" | "0xC0 \<le> uint p0" "uint p0 \<le> 0xDF" | "0xE0 \<le> uint p0" "uint p0 \<le> 0xEF"
    | "0xF0 \<le> uint p0" "uint p0 \<le> 0xF7" | "128 \<le> uint p0 \<and> uint p0 < 192 \<or> 0xF8 \<le> uint p0"
    by linarith
  then show ?thesis
  proof cases
    case 1
    then show ?thesis by (simp add: bs bit_ranges byte_eq_numeral [of p0] needed_uint utf8_ranges_def)
  next
    case 2
    then obtain p1 t' where t: "t = p1 # t'" using assms by (cases t) (auto simp: bs needed_uint)
    show ?thesis using 2 by (auto simp: bs t bit_ranges byte_eq_numeral [of p0] needed_uint utf8_ranges_def)
  next
    case 3
    then obtain p1 p2 t' where t: "t = p1 # p2 # t'"
      using assms by (cases t; cases "tl t") (auto simp: bs needed_uint)
    show ?thesis using 3 by (auto simp: bs t bit_ranges byte_eq_numeral [of p0] needed_uint utf8_ranges_def)
  next
    case 4
    then obtain p1 p2 p3 t' where t: "t = p1 # p2 # p3 # t'"
      using assms by (cases t; cases "tl t"; cases "tl (tl t)") (auto simp: bs needed_uint)
    show ?thesis using 4 by (auto simp: bs t bit_ranges byte_eq_numeral [of p0] needed_uint utf8_ranges_def)
  next
    case 5
    then show ?thesis by (auto simp: bs bit_ranges byte_eq_numeral [of p0] needed_uint utf8_ranges_def)
  qed
qed

lemma valid_run:
  assumes "bs \<noteq> []" and "needed (hd bs) \<le> length bs"
  shows "valid bs = Malformed \<and> utf8_run [] bs = None \<or> (\<exists>r. valid bs = Rest r \<and> utf8_run [] bs = utf8_run [] r)"
  using valid_spec [OF assms] utf8_run_append [of "[]" "take (needed (hd bs)) bs" "drop (needed (hd bs)) bs"] by auto

lemma utf8_run_within: "length bs \<le> length rs \<Longrightarrow> utf8_run rs bs = Some rs' \<Longrightarrow> length rs' = length rs - length bs"
  by (induction rs bs rule: utf8_run.induct) (auto split: if_splits)

lemma fail_fast_spec:
  assumes "bs \<noteq> []" and "length bs < needed (hd bs)"
  shows "fail_fast bs \<longleftrightarrow> utf8_run [] bs = None"
    and "utf8_run [] bs = Some rs \<Longrightarrow> length rs = needed (hd bs) - length bs"
proof -
  obtain p0 t where bs: "bs = p0 # t" using assms(1) by (cases bs) auto
  consider "0xC0 \<le> uint p0" "uint p0 \<le> 0xDF" "t = []"
    | "0xE0 \<le> uint p0" "uint p0 \<le> 0xEF" "t = [] \<or> (\<exists>p1. t = [p1])"
    | "0xF0 \<le> uint p0" "uint p0 \<le> 0xF7" "t = [] \<or> (\<exists>p1. t = [p1]) \<or> (\<exists>p1 p2. t = [p1, p2])"
    using assms(2) by (cases t; cases "tl t"; cases "tl (tl t)") (auto simp: bs needed_uint split: if_splits)
  then show "fail_fast bs \<longleftrightarrow> utf8_run [] bs = None"
    by cases (auto simp: bs bit_ranges byte_eq_numeral [of p0] utf8_ranges_def split: if_splits)
  assume "utf8_run [] bs = Some rs"
  then obtain rs0 where "utf8_ranges (uint p0) = Some rs0" "utf8_run rs0 t = Some rs"
    by (auto simp: bs split: option.splits)
  then show "length rs = needed (hd bs) - length bs"
    using utf8_run_within [of t rs0 rs] assms(2) by (auto simp: bs dest: utf8_ranges_needed)
qed

section \<open>The loops\<close>

text \<open>The checker waits for the ranges \<open>rs\<close>: it has read the start of a code point and no more.\<close>

definition utf8_waits :: "utf8_checker \<Rightarrow> (int \<times> int) list \<Rightarrow> bool" where
  "utf8_waits c rs \<longleftrightarrow>
     utf8_run [] (utf8_cp c) = Some rs \<and> utf8_need c = length rs
     \<and> (if utf8_cp c = [] then rs = [] else rs \<noteq> [] \<and> needed (hd (utf8_cp c)) = length (utf8_cp c) + length rs)"

text \<open>What a write promises: no access out of bounds, and the verdict of the specification.\<close>

definition utf8_promise :: "(int \<times> int) list option \<Rightarrow> (bool \<times> utf8_checker) option \<Rightarrow> bool" where
  "utf8_promise run res \<longleftrightarrow>
     (\<exists>ok c. res = Some (ok, c) \<and> (case run of None \<Rightarrow> \<not> ok | Some rs \<Rightarrow> ok \<and> utf8_waits c rs))"

lemma slow_loop_run:
  "slow_loop bs = Malformed \<and> utf8_run [] bs = None \<or> (\<exists>r. slow_loop bs = Rest r \<and> utf8_run [] bs = utf8_run [] r)"
proof (induction bs rule: slow_loop.induct)
  case (1 bs)
  show ?case
  proof (cases "3 < length bs")
    case True
    with needed_le [of "hd bs"] have "bs \<noteq> []" "needed (hd bs) \<le> length bs" by (auto intro: le_trans)
    from valid_run [OF this] 1 True show ?thesis by (auto simp: slow_loop.simps [of bs])
  qed (simp add: slow_loop.simps)
qed

lemma tail_loop_run:
  assumes "utf8_need c = 0" "utf8_cp c = []"
  shows "utf8_promise (utf8_run [] bs) (tail_loop c bs)"
  using assms
proof (induction c bs rule: tail_loop.induct)
  case (1 c bs)
  consider "bs = []" | "bs \<noteq> []" "needed (hd bs) \<le> length bs" | "bs \<noteq> []" "length bs < needed (hd bs)"
    by linarith
  then show ?case
  proof cases
    case 1
    then show ?thesis using "1.prems" by (auto simp: utf8_promise_def utf8_waits_def tail_loop.simps)
  next
    case 2
    show ?thesis
    proof (cases "needed (hd bs) = 0")
      case True
      then show ?thesis using 2 needed_zero [of bs] by (auto simp: tail_loop.simps [of c bs] utf8_promise_def)
    next
      case False
      from valid_run [OF 2] show ?thesis
      proof
        assume "valid bs = Malformed \<and> utf8_run [] bs = None"
        with False 2 show ?thesis by (auto simp: tail_loop.simps [of c bs] Let_def utf8_promise_def)
      next
        assume "\<exists>r. valid bs = Rest r \<and> utf8_run [] bs = utf8_run [] r"
        then obtain r where "valid bs = Rest r" "utf8_run [] bs = utf8_run [] r" by blast
        with False 2 "1.IH" "1.prems" show ?thesis by (simp add: tail_loop.simps [of c bs] Let_def)
      qed
    qed
  next
    case 3
    have "length bs \<le> 4" using 3 needed_le [of "hd bs"] by linarith
    then show ?thesis using 3 fail_fast_spec [OF 3] "1.prems"
      by (auto simp: tail_loop.simps [of c bs] Let_def utf8_promise_def utf8_waits_def split: option.splits)
  qed
qed

lemma utf8_rest_run:
  assumes "utf8_need c = 0" "utf8_cp c = []"
  shows "utf8_promise (utf8_run [] bs) (utf8_rest c bs)"
  using slow_loop_run [of bs] tail_loop_run [OF assms] by (auto simp: utf8_rest_def utf8_promise_def)

lemma utf8_run_ascii: "uint b < 128 \<Longrightarrow> utf8_run [] (b # bs) = utf8_run [] bs"
  by (simp add: utf8_ranges_def)

lemma align_loop_run: "n \<le> length bs \<Longrightarrow> \<exists>f r. align_loop n bs = Some (f, r) \<and> utf8_run [] r = utf8_run [] bs"
  by (induction n bs rule: align_loop.induct) (auto simp: high_bit utf8_run_ascii simp del: utf8_run.simps)

lemma high_bit_uint: "bit (b :: u8) 7 \<longleftrightarrow> \<not> uint b < 128"
proof -
  have "bit b 7 \<longleftrightarrow> odd (uint b div 128)" by (simp add: bit_uint_iff flip: bit_iff_odd [of "uint b" 7, simplified])
  moreover have "uint b div 128 = 0 \<or> uint b div 128 = 1"
    using uint_byte_less [of b] uint_byte_nonneg [of b] by linarith
  ultimately show ?thesis using uint_byte_less [of b] by auto
qed

lemma load_size_t_ascii:
  assumes "load_size_t [b0, b1, b2, b3, b4, b5, b6, b7] AND 0x8080808080808080 = 0"
  shows "\<forall>b \<in> {b0, b1, b2, b3, b4, b5, b6, b7}. uint b < 128"
proof -
  let ?w = "load_size_t [b0, b1, b2, b3, b4, b5, b6, b7]"
  have "\<not> bit (?w AND 0x8080808080808080) n" for n using assms by simp
  from this [of 7] this [of 15] this [of 23] this [of 31] this [of 39] this [of 47] this [of 55] this [of 63]
  show ?thesis
    by (simp add: load_size_t_def bit_simps high_bit_uint)
qed

lemma fast_loop_run: "utf8_run [] (fast_loop bs) = utf8_run [] bs"
proof (induction bs rule: fast_loop.induct)
  case (1 bs)
  show ?case
  proof (cases "7 < length bs \<and> load_size_t bs AND 0x8080808080808080 = 0")
    case True
    then obtain b0 b1 b2 b3 b4 b5 b6 b7 t where bs: "bs = [b0, b1, b2, b3, b4, b5, b6, b7] @ t"
      by (auto simp: eval_nat_numeral Suc_less_eq2 length_Suc_conv Suc_le_length_iff less_iff_Suc_add)
    from True have "\<forall>b \<in> {b0, b1, b2, b3, b4, b5, b6, b7}. uint b < 128"
      by (intro load_size_t_ascii) (simp add: bs load_size_t_def)
    then have "utf8_run [] bs = utf8_run [] t"
      by (simp add: bs utf8_run_ascii del: utf8_run.simps)
    moreover have "fast_loop bs = fast_loop t" "drop 8 bs = t" using True fast_loop.simps [of bs] by (simp_all add: bs)
    ultimately show ?thesis using 1 True by simp
  next
    case False
    then have "fast_loop bs = bs" by (subst fast_loop.simps) argo
    then show ?thesis by simp
  qed
qed

lemma utf8_body_run:
  assumes "utf8_need c = 0" "utf8_cp c = []"
  shows "utf8_promise (utf8_run [] bs) (utf8_body a c bs)"
proof (cases "length bs \<le> 8")
  case False
  have "(a + 7) div 8 * 8 - a \<le> 7" by linarith
  with False have "(a + 7) div 8 * 8 - a \<le> length bs" by linarith
  from align_loop_run [OF this] obtain f r where
    "align_loop ((a + 7) div 8 * 8 - a) bs = Some (f, r)" "utf8_run [] r = utf8_run [] bs" by blast
  with False utf8_rest_run [OF assms, of r] utf8_rest_run [OF assms, of "fast_loop r"] show ?thesis
    by (cases f) (simp_all add: utf8_body_def fast_loop_run)
qed (use utf8_rest_run [OF assms] in \<open>simp add: utf8_body_def\<close>)

text \<open>A write from a state that waits for \<open>rs\<close> continues the run of the specification.\<close>

lemma utf8_write_run:
  assumes "utf8_waits c rs"
  shows "utf8_promise (utf8_run rs bs) (utf8_write a bs c)"
proof (cases "utf8_need c = 0")
  case True
  then have "rs = []" "utf8_cp c = []" using assms by (auto simp: utf8_waits_def split: if_splits)
  with True show ?thesis using utf8_body_run by (simp add: utf8_write_def)
next
  case False
  define n where "n = min (length bs) (utf8_need c)"
  define cp where "cp = utf8_cp c @ take n bs"
  let ?c = "c\<lparr>utf8_need := utf8_need c - n, utf8_cp := cp\<rparr>"
  have c: "utf8_cp c \<noteq> []" "utf8_run [] (utf8_cp c) = Some rs" "utf8_need c = length rs"
    "needed (hd (utf8_cp c)) = length (utf8_cp c) + length rs"
    using assms False by (auto simp: utf8_waits_def split: if_splits)
  then have cp: "cp \<noteq> []" "hd cp = hd (utf8_cp c)" "utf8_run [] cp = utf8_run rs (take n bs)"
    by (auto simp: cp_def utf8_run_append)
  have len: "length cp + (utf8_need c - n) = needed (hd cp)" "length cp \<le> 4"
    using c cp needed_le [of "hd cp"] by (simp_all add: cp_def n_def min_def)
  show ?thesis
  proof (cases "utf8_need c - n = 0")
    case False
    have run: "take n bs = bs" and lt: "length cp < needed (hd cp)" using False len by (auto simp: n_def)
    have "utf8_write a bs c = Some (\<not> fail_fast cp, ?c)"
      using False \<open>utf8_need c \<noteq> 0\<close> len
      unfolding utf8_write_def Let_def n_def [symmetric] cp_def [symmetric] by simp
    moreover have "utf8_run rs bs = utf8_run [] cp" using cp(3) run by simp
    ultimately show ?thesis
      using fail_fast_spec [OF cp(1) lt] False cp(1) len
      by (cases "utf8_run [] cp") (auto simp: utf8_promise_def utf8_waits_def)
  next
    case True
    then have nd: "needed (hd cp) = length cp" using len by simp
    have run: "utf8_run rs bs = Option.bind (utf8_run [] cp) (\<lambda>rs'. utf8_run rs' (drop n bs))"
      using utf8_run_append [of rs "take n bs" "drop n bs"] cp by simp
    have wr: "utf8_write a bs c = (case valid cp of Overrun \<Rightarrow> None | Malformed \<Rightarrow> Some (False, ?c)
        | Rest _ \<Rightarrow> utf8_body (a + n) (?c\<lparr>utf8_cp := []\<rparr>) (drop n bs))"
      using False True len
      unfolding utf8_write_def Let_def n_def [symmetric] cp_def [symmetric] by simp
    from valid_spec [OF cp(1)] nd
    have "valid cp = Malformed \<and> utf8_run [] cp = None \<or> valid cp = Rest [] \<and> utf8_run [] cp = Some []" by simp
    then show ?thesis
      using utf8_body_run [of "?c\<lparr>utf8_cp := []\<rparr>" "drop n bs"] True
      by (elim disjE conjE) (auto simp: wr run utf8_promise_def)
  qed
qed

lemma utf8_write_buffers_run:
  "utf8_waits c rs \<Longrightarrow> utf8_promise (utf8_run rs (concat (map snd bufs))) (utf8_write_buffers bufs c)"
proof (induction bufs arbitrary: c rs)
  case (Cons buf bufs)
  obtain a bs where buf: "buf = (a, bs)" by (cases buf)
  from utf8_write_run [OF Cons.prems, of bs a] Cons.IH show ?case
    by (cases "utf8_run rs bs") (fastforce simp: utf8_promise_def buf utf8_run_append)+
qed (auto simp: utf8_promise_def)

lemma utf8_waits_init: "utf8_waits utf8_checker_init []"
  by (simp add: utf8_waits_def utf8_checker_init_def)

text \<open>
  C39: The checker accepts a text cut into any segments at any addresses when, and only when, it can be
  completed to well-formed UTF-8; \<open>finish\<close> then holds exactly for well-formed text. No access
  leaves a segment or the buffer for the code point.
\<close>

theorem utf8_checker_segments:
  "\<exists>ok c. utf8_write_buffers bufs utf8_checker_init = Some (ok, c)
     \<and> (ok \<longleftrightarrow> (\<exists>t. utf8_valid (map char_of_byte (concat (map snd bufs) @ t))))
     \<and> (ok \<and> fst (utf8_finish c) \<longleftrightarrow> utf8_valid (map char_of_byte (concat (map snd bufs))))
     \<and> snd (utf8_finish c) = utf8_checker_init"
proof -
  from utf8_write_buffers_run [OF utf8_waits_init, of bufs]
  obtain ok c where "utf8_write_buffers bufs utf8_checker_init = Some (ok, c)"
    "case utf8_run [] (concat (map snd bufs)) of None \<Rightarrow> \<not> ok | Some rs \<Rightarrow> ok \<and> utf8_waits c rs"
    by (auto simp: utf8_promise_def)
  then show ?thesis
    unfolding utf8_valid_run utf8_run_completable
    by (auto simp: utf8_finish_def utf8_waits_def utf8_reset_def utf8_checker_init_def split: option.splits)
qed

text \<open>\<open>check_utf8\<close> decides RFC 3629 at every address.\<close>

lemma check_utf8_result: "check_utf8 a bs = Some (utf8_valid (map char_of_byte bs))"
  using utf8_write_run [OF utf8_waits_init, of bs a]
  by (auto simp: check_utf8_def utf8_promise_def utf8_valid_run utf8_finish_def utf8_waits_def split: option.splits)

end
