(* ===== verification/Ws_Frame.thy ===== *)
theory Ws_Frame
  imports Utf8_Checker
begin

text \<open>
  Websocket frames: the header and its serialisation, the payload of a close frame and the mask
  (\<^verbatim>\<open>frame.hpp\<close> and \<^verbatim>\<open>mask.hpp\<close> of
  \<^verbatim>\<open>src/externals/boost/boost/beast/websocket/detail\<close>). Buffers are lists of bytes.
\<close>

section \<open>Integers in buffers\<close>

definition big_uint16_to_native :: "u8 list \<Rightarrow> u16" where
  "big_uint16_to_native p = push_bit 8 (ucast (p ! 0)) + ucast (p ! 1)"

definition big_uint64_to_native :: "u8 list \<Rightarrow> u64" where
  "big_uint64_to_native p =
     push_bit 56 (ucast (p ! 0)) + push_bit 48 (ucast (p ! 1)) + push_bit 40 (ucast (p ! 2))
     + push_bit 32 (ucast (p ! 3)) + push_bit 24 (ucast (p ! 4)) + push_bit 16 (ucast (p ! 5))
     + push_bit 8 (ucast (p ! 6)) + ucast (p ! 7)"

definition little_uint32_to_native :: "u8 list \<Rightarrow> u32" where
  "little_uint32_to_native p =
     ucast (p ! 0) + push_bit 8 (ucast (p ! 1)) + push_bit 16 (ucast (p ! 2)) + push_bit 24 (ucast (p ! 3))"

definition native_to_little_uint32 :: "u32 \<Rightarrow> u8 list" where
  "native_to_little_uint32 v =
     [ucast (v AND 0xff), ucast (drop_bit 8 v AND 0xff), ucast (drop_bit 16 v AND 0xff),
      ucast (drop_bit 24 v AND 0xff)]"

text \<open>\<open>store_big\<close> is the store of the big endian buffers \<open>big_uint16_buf_t\<close> and \<open>big_uint64_buf_t\<close>.\<close>

fun store_big :: "nat \<Rightarrow> 'a::len word \<Rightarrow> u8 list" where
  "store_big 0 v = []"
| "store_big (Suc n) v = store_big n (drop_bit 8 v) @ [ucast v]"

section \<open>The frame header\<close>

datatype opcode =
  Op_cont | Op_text | Op_binary | Op_rsv3 | Op_rsv4 | Op_rsv5 | Op_rsv6 | Op_rsv7
| Op_close | Op_ping | Op_pong | Op_crsvb | Op_crsvc | Op_crsvd | Op_crsve | Op_crsvf

definition opcodes :: "opcode list" where
  "opcodes =
     [Op_cont, Op_text, Op_binary, Op_rsv3, Op_rsv4, Op_rsv5, Op_rsv6, Op_rsv7,
      Op_close, Op_ping, Op_pong, Op_crsvb, Op_crsvc, Op_crsvd, Op_crsve, Op_crsvf]"

fun opcode_value :: "opcode \<Rightarrow> u8" where
  "opcode_value Op_cont = 0" | "opcode_value Op_text = 1" | "opcode_value Op_binary = 2"
| "opcode_value Op_rsv3 = 3" | "opcode_value Op_rsv4 = 4" | "opcode_value Op_rsv5 = 5"
| "opcode_value Op_rsv6 = 6" | "opcode_value Op_rsv7 = 7" | "opcode_value Op_close = 8"
| "opcode_value Op_ping = 9" | "opcode_value Op_pong = 10" | "opcode_value Op_crsvb = 11"
| "opcode_value Op_crsvc = 12" | "opcode_value Op_crsvd = 13" | "opcode_value Op_crsve = 14"
| "opcode_value Op_crsvf = 15"

text \<open>The cast of \<open>tmp[0] & 0x0f\<close> to \<open>opcode\<close>.\<close>

definition opcode_cast :: "u8 \<Rightarrow> opcode" where
  "opcode_cast b = opcodes ! unat (b AND 0x0f)"

record frame_header =
  fh_len :: u64
  fh_key :: u32
  fh_op :: opcode
  fh_fin :: bool
  fh_mask :: bool
  fh_rsv1 :: bool
  fh_rsv2 :: bool
  fh_rsv3 :: bool

definition is_reserved :: "opcode \<Rightarrow> bool" where
  "is_reserved op \<longleftrightarrow>
     opcode_value op \<ge> opcode_value Op_rsv3 \<and> opcode_value op \<le> opcode_value Op_rsv7
     \<or> opcode_value op \<ge> opcode_value Op_crsvb \<and> opcode_value op \<le> opcode_value Op_crsvf"

definition is_control :: "opcode \<Rightarrow> bool" where
  "is_control op \<longleftrightarrow> opcode_value op \<ge> opcode_value Op_close"

text \<open>Writing the header: the two fixed bytes, the extended length and the key.\<close>

definition frame_byte0 :: "frame_header \<Rightarrow> u8" where
  "frame_byte0 fh =
     (let b = (if fh_fin fh then 0x80 else 0x00) OR opcode_value (fh_op fh);
          b = (if fh_rsv1 fh then b OR 0x40 else b);
          b = (if fh_rsv2 fh then b OR 0x20 else b)
      in if fh_rsv3 fh then b OR 0x10 else b)"

definition write_header :: "frame_header \<Rightarrow> u8 list" where
  "write_header fh =
     (let b1 = (if fh_mask fh then 0x80 else 0x00);
          key = (if fh_mask fh then native_to_little_uint32 (fh_key fh) else [])
      in if fh_len fh \<le> 125 then [frame_byte0 fh, b1 OR ucast (fh_len fh)] @ key
         else if fh_len fh \<le> 65535 then
           [frame_byte0 fh, b1 OR 126] @ store_big 2 (ucast (fh_len fh) :: u16) @ key
         else [frame_byte0 fh, b1 OR 127] @ store_big 8 (fh_len fh) @ key)"

section \<open>Close frames\<close>

datatype ws_error =
  Error_closed | Error_message_too_big | Error_bad_opcode | Error_bad_data_frame
| Error_bad_continuation | Error_bad_reserved_bits | Error_bad_control_fragment
| Error_bad_control_size | Error_bad_unmasked_frame | Error_bad_masked_frame | Error_bad_size
| Error_bad_frame_payload | Error_bad_close_code | Error_bad_close_size | Error_bad_close_payload

abbreviation close_none :: u16 where "close_none \<equiv> 0"
abbreviation close_normal :: u16 where "close_normal \<equiv> 1000"
abbreviation close_protocol_error :: u16 where "close_protocol_error \<equiv> 1002"
abbreviation close_bad_payload :: u16 where "close_bad_payload \<equiv> 1007"
abbreviation close_too_big :: u16 where "close_too_big \<equiv> 1009"

record close_reason =
  cr_code :: u16
  cr_reason :: "u8 list"

definition is_valid_close_code :: "u16 \<Rightarrow> bool" where
  "is_valid_close_code v =
     (if v \<in> {1000, 1001, 1002, 1003, 1007, 1008, 1009, 1010, 1011, 1012, 1013} then True
      else if v \<in> {1004, 1005, 1006, 1014, 1015} then False
      else if v \<ge> 1016 \<and> v \<le> 2999 then False
      else if v \<le> 999 then False
      else True)"

text \<open>
  \<open>read_close\<close> gives the reason, or the error together with what it has stored of the reason;
  \<open>a\<close> is the address of the copied reason text. \<^term>\<open>None\<close> is an access out of bounds.
\<close>

definition read_close :: "nat \<Rightarrow> close_reason \<Rightarrow> u8 list \<Rightarrow> (ws_error option \<times> close_reason) option" where
  "read_close a cr bs =
     (if length bs = 0 then Some (None, \<lparr>cr_code = close_none, cr_reason = []\<rparr>)
      else if length bs = 1 then Some (Some Error_bad_close_size, cr)
      else let cr = cr\<lparr>cr_code := big_uint16_to_native (take 2 bs)\<rparr>; cb = drop 2 bs in
        if \<not> is_valid_close_code (cr_code cr) then Some (Some Error_bad_close_code, cr)
        else if 0 < length cb then
          (case check_utf8 a cb of
             None \<Rightarrow> None
           | Some ok \<Rightarrow> Some (if ok then None else Some Error_bad_close_payload, cr\<lparr>cr_reason := cb\<rparr>))
        else Some (None, cr\<lparr>cr_reason := []\<rparr>))"

section \<open>The mask\<close>

type_synonym prepared_key = "u8 list"

definition prepare_key :: "u32 \<Rightarrow> prepared_key" where
  "prepare_key key =
     [ucast (drop_bit 0 key AND 0xff), ucast (drop_bit 8 key AND 0xff),
      ucast (drop_bit 16 key AND 0xff), ucast (drop_bit 24 key AND 0xff)]"

definition rol :: "u8 list \<Rightarrow> nat \<Rightarrow> u8 list" where
  "rol v n = map (\<lambda>i. v ! ((i + n) mod length v)) [0..<length v]"

fun mask_loop :: "prepared_key \<Rightarrow> u8 list \<Rightarrow> u8 list" where
  "mask_loop k (p0 # p1 # p2 # p3 # p) =
     (p0 XOR k ! 0) # (p1 XOR k ! 1) # (p2 XOR k ! 2) # (p3 XOR k ! 3) # mask_loop k p"
| "mask_loop k p = map (\<lambda>i. p ! i XOR k ! i) [0..<length p]"

definition mask_inplace :: "u8 list \<Rightarrow> prepared_key \<Rightarrow> u8 list \<times> prepared_key" where
  "mask_inplace b key =
     (mask_loop key b, if 0 < length b mod 4 then rol key (length b mod 4) else key)"

fun mask_inplace_buffers :: "u8 list list \<Rightarrow> prepared_key \<Rightarrow> u8 list list \<times> prepared_key" where
  "mask_inplace_buffers [] key = ([], key)"
| "mask_inplace_buffers (b # bs) key =
     (let (b', key1) = mask_inplace b key; (bs', key2) = mask_inplace_buffers bs key1 in (b' # bs', key2))"

section \<open>What the mask computes\<close>

definition xor_key :: "prepared_key \<Rightarrow> u8 list \<Rightarrow> u8 list" where
  "xor_key k bs = map (\<lambda>i. bs ! i XOR k ! (i mod 4)) [0..<length bs]"

lemma xor_key_simps [simp]: "length (xor_key k bs) = length bs" "xor_key k [] = []"
  "i < length bs \<Longrightarrow> xor_key k bs ! i = bs ! i XOR k ! (i mod 4)"
  by (simp_all add: xor_key_def)

lemma length_prepare_key [simp]: "length (prepare_key key) = 4"
  by (simp add: prepare_key_def)

lemma length_rol [simp]: "length (rol k n) = length k"
  by (simp add: rol_def)

lemma rol_nth: "i < length k \<Longrightarrow> rol k n ! i = k ! ((i + n) mod length k)"
  by (simp add: rol_def)

lemma xor_key_append:
  assumes "length k = 4"
  shows "xor_key k (a @ b) = xor_key k a @ xor_key (rol k (length a)) b"
  using assms by (intro nth_equalityI) (auto simp: nth_append rol_nth mod_simps)

lemma xor_key_involution [simp]: "xor_key k (xor_key k bs) = bs"
  by (rule nth_equalityI) (simp_all flip: xor.assoc add: xor.assoc)

lemma rol_rol: "length k = 4 \<Longrightarrow> rol (rol k m) n = rol k (m + n)"
  by (intro nth_equalityI) (auto simp: rol_nth mod_simps ac_simps)

lemma rol_mod: "length k = 4 \<Longrightarrow> rol k (n mod 4) = rol k n"
  by (intro nth_equalityI) (auto simp: rol_nth mod_simps)

lemma rol_0 [simp]: "rol k 0 = k"
  by (intro nth_equalityI) (auto simp: rol_nth)

lemma xor_key_cons4:
  "xor_key k (p0 # p1 # p2 # p3 # p) =
     (p0 XOR k ! 0) # (p1 XOR k ! 1) # (p2 XOR k ! 2) # (p3 XOR k ! 3) # xor_key k p"
  (is "?l = ?r")
proof (rule nth_equalityI)
  fix i assume "i < length ?l"
  moreover have "i = 0 \<or> i = 1 \<or> i = 2 \<or> i = 3 \<or> (\<exists>j. i = 4 + j)" by presburger
  ultimately show "?l ! i = ?r ! i" by (auto simp: numeral_2_eq_2 numeral_3_eq_3 nth_Cons')
qed simp

lemma mask_loop_xor_key: "mask_loop k bs = xor_key k bs"
  by (induction k bs rule: mask_loop.induct) (simp_all add: xor_key_cons4, simp_all add: xor_key_def)

lemma mask_inplace_result:
  assumes "length k = 4"
  shows "mask_inplace b k = (xor_key k b, rol k (length b))"
  using rol_mod [OF assms, of "length b"] by (auto simp: mask_inplace_def mask_loop_xor_key)

lemma mask_inplace_buffers_result:
  assumes "length k = 4"
  shows "concat (fst (mask_inplace_buffers bs k)) = xor_key k (concat bs)
    \<and> snd (mask_inplace_buffers bs k) = rol k (length (concat bs))"
  using assms
  by (induction bs arbitrary: k)
     (simp_all add: mask_inplace_result xor_key_append rol_rol case_prod_beta Let_def)

text \<open>
  C40: Masking a message in place does not depend on how it is cut into buffers: masking it again
  with the same key gives the message back, whatever the two cuts are.
\<close>

theorem mask_inplace_buffers_involution:
  assumes "concat bs' = concat (fst (mask_inplace_buffers bs (prepare_key key)))"
  shows "concat (fst (mask_inplace_buffers bs' (prepare_key key))) = concat bs"
  using mask_inplace_buffers_result [of "prepare_key key"] assms by simp

lemma mask_inplace_buffers_involution_witness:
  "concat (fst (mask_inplace_buffers
     [[0x68 XOR 0xCD], [0x65 XOR 0xAB, 0x6C XOR 0x34], [0x6C XOR 0x12, 0x6F XOR 0xCD]] (prepare_key 0x1234ABCD)))
   = [0x68, 0x65, 0x6C, 0x6C, 0x6F]"
proof -
  have "concat [[0x68 XOR 0xCD], [0x65 XOR 0xAB, 0x6C XOR 0x34], [0x6C XOR 0x12, 0x6F XOR 0xCD]]
    = concat (fst (mask_inplace_buffers [[0x68, 0x65, 0x6C, 0x6C], [0x6F]] (prepare_key 0x1234ABCD)))"
    by code_simp
  from mask_inplace_buffers_involution [OF this] show ?thesis by simp
qed

section \<open>Integers are read back\<close>

lemma byte_of_word: "ucast (ucast v :: u8) = (take_bit 8 v :: 'a::len word)" if "8 \<le> LENGTH('a)"
  using that by (intro bit_word_eqI) (auto simp: bit_simps)

lemma low_byte: "ucast (v AND 0xff) = (ucast v :: u8)" for v :: u32
proof -
  have "v AND 0xff = take_bit 8 v" by (simp add: take_bit_eq_mask mask_eq_exp_minus_1)
  then show ?thesis by (intro bit_word_eqI) (simp add: bit_simps)
qed

lemma split_byte: "push_bit n (take_bit 8 (drop_bit n v)) + push_bit (n + 8) (drop_bit (n + 8) v) = push_bit n (drop_bit n v)"
  for v :: "'a::len word"
proof -
  have "push_bit n (push_bit 8 (drop_bit 8 (drop_bit n v)) + take_bit 8 (drop_bit n v)) = push_bit n (drop_bit n v)"
    by (simp only: bits_ident)
  then show ?thesis by (simp only: push_bit_add push_bit_push_bit drop_bit_drop_bit) (simp add: ac_simps)
qed

lemma sum_bytes:
  fixes r0 :: "'a::comm_monoid_add"
  shows "a0 + r1 = r0 \<Longrightarrow> a1 + r2 = r1 \<Longrightarrow> a2 + r3 = r2 \<Longrightarrow> a3 + r4 = r3 \<Longrightarrow> r0 = a0 + a1 + a2 + a3 + r4"
    and "a0 + r1 = r0 \<Longrightarrow> a1 + r2 = r1 \<Longrightarrow> a2 + r3 = r2 \<Longrightarrow> a3 = r3 \<Longrightarrow> r0 = a0 + a1 + a2 + a3"
  by (auto simp: ac_simps)

lemma big_uint16_roundtrip [simp]: "big_uint16_to_native (take 2 (store_big 2 v)) = v"
proof -
  have "push_bit 8 (drop_bit 8 v) = push_bit 8 (take_bit 8 (drop_bit 8 v))"
    by (rule bit_word_eqI) (auto simp: bit_simps)
  then have "push_bit 8 (take_bit 8 (drop_bit 8 v)) + take_bit 8 v = v" by (metis bits_ident)
  then show ?thesis by (simp add: big_uint16_to_native_def numeral_2_eq_2 byte_of_word)
qed

lemma native_to_little_uint32_roundtrip [simp]: "little_uint32_to_native (native_to_little_uint32 v) = v"
proof -
  from sum_bytes(2) [OF split_byte [of 0 v, simplified] split_byte [of 8 v, simplified] split_byte [of 16 v, simplified] split_byte [of 24 v, simplified]]
  show ?thesis
    by (simp add: little_uint32_to_native_def native_to_little_uint32_def low_byte byte_of_word)
qed

lemma big_uint64_roundtrip [simp]: "big_uint64_to_native (take 8 (store_big 8 v)) = v"
proof -
  note sum_bytes(1) [OF split_byte [of 0 v, simplified] split_byte [of 8 v, simplified] split_byte [of 16 v, simplified] split_byte [of 24 v, simplified]]
  moreover note sum_bytes(2) [OF split_byte [of 32 v, simplified] split_byte [of 40 v, simplified] split_byte [of 48 v, simplified] split_byte [of 56 v, simplified]]
  moreover have "store_big 8 v = [ucast (drop_bit 56 v), ucast (drop_bit 48 v), ucast (drop_bit 40 v),
     ucast (drop_bit 32 v), ucast (drop_bit 24 v), ucast (drop_bit 16 v), ucast (drop_bit 8 v), ucast v]"
    by (simp add: eval_nat_numeral)
  ultimately show ?thesis by (simp add: big_uint64_to_native_def byte_of_word ac_simps)
qed

lemma length_store_big [simp]: "length (store_big n v) = n"
  by (induction n v rule: store_big.induct) auto

lemma prepare_key_little: "prepare_key key = native_to_little_uint32 key"
  by (simp add: prepare_key_def native_to_little_uint32_def)

section \<open>The first two bytes\<close>

lemma opcode_value_less: "unat (opcode_value op) < 16"
  by (cases op) simp_all

lemma opcode_cast_value: "opcode_cast (b OR opcode_value op) = op" if "b AND 0x0f = 0"
proof -
  have "(b OR opcode_value op) AND 0x0f = (b AND 0x0f) OR (opcode_value op AND 0x0f)"
    by (rule bit_word_eqI) (auto simp: bit_simps)
  also have "\<dots> = opcode_value op" unfolding that by (cases op) simp_all
  finally show ?thesis by (cases op) (simp_all add: opcode_cast_def opcodes_def)
qed

lemma frame_byte0_fields:
  "opcode_cast (frame_byte0 fh) = fh_op fh" "frame_byte0 fh AND 0x80 \<noteq> 0 \<longleftrightarrow> fh_fin fh"
  "frame_byte0 fh AND 0x40 \<noteq> 0 \<longleftrightarrow> fh_rsv1 fh" "frame_byte0 fh AND 0x20 \<noteq> 0 \<longleftrightarrow> fh_rsv2 fh"
  "frame_byte0 fh AND 0x10 \<noteq> 0 \<longleftrightarrow> fh_rsv3 fh"
  by (cases "fh_op fh"; cases "fh_fin fh"; cases "fh_rsv1 fh"; cases "fh_rsv2 fh"; cases "fh_rsv3 fh";
      simp add: frame_byte0_def opcode_cast_def opcodes_def)+

lemma length_byte_fields:
  fixes n :: u8
  assumes "uint n < 128"
  shows "((if m then 0x80 else 0) OR n) AND 0x7f = n" "((if m then 0x80 else 0) OR n) AND 0x80 \<noteq> 0 \<longleftrightarrow> m"
proof -
  have n7: "\<not> bit n 7" using assms by (simp add: high_bit_uint)
  then show "((if m then 0x80 else 0) OR n) AND 0x7f = n" by (intro byte_eqI) (simp_all add: bit_simps)
  have "((if m then 0x80 else 0) OR n) AND 0x80 = (if m then 0x80 else 0)"
    using n7 by (intro byte_eqI) (simp_all add: bit_simps)
  then show "((if m then 0x80 else 0) OR n) AND 0x80 \<noteq> 0 \<longleftrightarrow> m" by simp
qed

end
