(* ===== verification/Spec2Isabelle.thy ===== *)
theory Spec2Isabelle
  imports Emu_System Ws_Frame
begin

text \<open>
  \<^bold>\<open>EmuRPC\<close> lets external tools read and write the memory of an emulator over a websocket that
  carries JSON-RPC. An emulator embeds the class \<open>EmuRPC\<close> (or its C interface) and gives it
  callbacks. Three threads meet in it: the io thread runs the websocket sessions and puts parsed
  requests into the queue \<open>client_emu\<close>; the server thread runs \<open>ProcessEvents\<close>, which takes
  requests from \<open>client_emu\<close>, calls the callbacks, puts responses into \<open>emu_client\<close> and sends
  them; the emulator thread calls \<open>HandleTiming\<close> at the end of a frame and on a memory access.

  \<^bold>\<open>Theories, from the bottom.\<close>
  \<^item> \<open>Prelude\<close>: machine integers, the error monad \<open>bindr\<close> in which throwing code is written, the
    casts between \<open>char\<close> and \<open>u8\<close>, the collection \<open>wf_intros\<close>.
  \<^item> \<open>Base64\<close>: \<open>EncodeBase64\<close> and \<open>DecodeBase64\<close> of \<^verbatim>\<open>src/src/json_protocol.cpp\<close> on top of the
    iterators of \<^verbatim>\<open>boost/archive/iterators\<close>, with their buffers and flags as the state.
  \<^item> \<open>Float64\<close>: binary64 numbers, as far as the parser makes them and \<open>get_to\<close> reads them.
  \<^item> \<open>Json_Value\<close>: the values of \<open>nlohmann::basic_json\<close> and the operations the program calls; the
    locale \<open>std_map\<close> is what it uses of \<open>std::map\<close>.
  \<^item> \<open>Utf8\<close>: the automaton \<open>serializer::decode\<close> against RFC 3629.
  \<^item> \<open>Json_Serializer\<close>: \<open>serializer::dump\<close> in its compact form, with \<open>string_buffer\<close> and
    \<open>number_buffer\<close> as bounded buffers.
  \<^item> \<open>Json_Lexer\<close>, \<open>Json_Parser\<close>: the class \<open>lexer\<close> and \<open>parser::sax_parse_internal\<close> with the
    builder \<open>json_sax_dom_parser\<close>; its pointers into the tree are paths.
  \<^item> \<open>Json_Tokens\<close>, \<open>Json_Roundtrip\<close>: proofs about the two, no model of code.
  \<^item> \<open>Protocol\<close>, \<open>Json_Protocol\<close>: the messages of \<^verbatim>\<open>src/src/protocol.h\<close>, their translation to
    JSON values and \<open>JSONSerializer\<close> of \<^verbatim>\<open>src/src/json_protocol.cpp\<close>.
  \<^item> \<open>Spsc_Queue\<close>: the ring buffer of \<^verbatim>\<open>boost/lockfree/spsc_queue.hpp\<close>; the locale
    \<open>bounded_queue\<close> is its contract, \<open>queue_worker\<close> extends it by a loop that empties it.
  \<^item> \<open>Rpc_Server\<close>: \<open>Session\<close>, \<open>Listener\<close> and \<open>RPCServer\<close> of \<^verbatim>\<open>src/src/rpc_server.cpp\<close>.
  \<^item> \<open>EmuRpc\<close>: \<^verbatim>\<open>src/src/emurpc.cpp\<close> with the two public headers; the record \<open>impl\<close> is
    \<open>EmuRPC::Impl\<close> together with the listener, the guest and a log of the socket operations.
  \<^item> \<open>Emu_System\<close>: the steps of the three threads as a transition relation, its invariant, and
    what the loops compute.

  \<^bold>\<open>What is proved.\<close> Base64: the encoder is RFC 4648; the decoder on every input, and how far it
  inverts the encoder. JSON text: \<open>dump\<close> writes exactly the text of a value and never leaves its
  buffers; the parser rebuilds every value without floats from its text, ends after at most as
  many rounds as there are bytes, returns only well-formed values and throws only two kinds of
  exception; a string token is well-formed UTF-8. Protocol: the exact text of every response,
  what is read from the text of every request, that whatever bytes arrive the request handed on
  is of the class its method names, and which requests are refused. Queue: it refines a list of
  bounded length and is first-in first-out. Server: what a session writes, and that a response
  reaches only the session whose id it carries. System: an invariant of every interleaving, by
  which no downcast is ever wrong and no response unwritable; the loops of \<open>ProcessEvents\<close> end
  and compute the abstract emulator \<open>serve\<close>. Below, a request is followed from its bytes on a
  socket to the bytes of its response.

  \<^bold>\<open>Parameters.\<close> The callbacks of the configuration are the emulator's code and act on a guest of
  type \<open>'m\<close>, which includes \<open>user_data\<close>; a callback that is not set is not called by the model's
  operations except for the two memory callbacks, which the code calls without a test.
  \<open>dump_float\<close> is the text of a floating-point number. Boost.Asio and Boost.Beast choose when
  handlers run and with what arguments.

  \<^bold>\<open>Bounds and fuel.\<close> No definition has fuel. The loops of the parser and the lexer are total by a
  measure on the input that is left. The loops over the queues are partial functions into
  \<open>option\<close>, and are proved to return. The queues hold 1024 elements, as in the code.

  \<^bold>\<open>Not modelled.\<close> The parts of \<^verbatim>\<open>json.hpp\<close> the program does not call: CBOR, MessagePack and UBJSON,
  pretty printing, iterators, JSON pointers and patches, SAX callbacks; and the printing of
  floating-point numbers, which no message contains. Boost.Asio, Boost.Beast and the memory
  orderings of the queue: its operations are atomic here. \<open>MsgPackSerializer\<close> is a stub in the code
  and in the model. The tests and the example only call the interface.
\<close>

section \<open>From the wire to the guest and back\<close>

text \<open>A client's message is queued under the id of its session.\<close>

lemma io_read_request:
  assumes "impl_ok st" and "session_of k (server st) = Some (obj, s)" and "read_buffer s = []"
    and "contents (client_emu st) = []" and "JSON_DeserializeRequest bytes = Inr r" and "n \<noteq> 0"
  shows "\<exists>st1. io_read obj bytes ec n st = Inr st1 \<and> impl_ok st1 \<and> contents (client_emu st1) = [(k, r)]
     \<and> emu_client st1 = emu_client st \<and> net st1 = net st @ [Async_read] \<and> session_of k (server st1) = Some (obj, s)
     \<and> guest st1 = guest st \<and> config st1 = config st \<and> stopped st1 = stopped st"
proof -
  have s: "sess_id s = k" "objects (server st) obj = Some s" "sessions (server st) k = Some (Some obj)"
    using session_of_id [OF _ assms(2)] assms(1,2) by (auto simp: impl_ok_def session_of_def split: option.splits)
  let ?q = "snd (push (k, r) (client_emu st))"
  let ?st = "st\<lparr>server := (server st)\<lparr>objects := (objects (server st))(obj \<mapsto> s)\<rparr>, client_emu := ?q, net := net st @ [Async_read]\<rparr>"
  have s': "s\<lparr>read_buffer := []\<rparr> = s" using assms(3) by simp
  have "io_read obj bytes ec n st = Inr ?st"
    using assms(3,5,6) s by (simp add: io_read_def Session_OnRead_ok s')
  moreover from this have "impl_ok ?st" by (rule io_read_ok [OF assms(1)])
  moreover have "contents ?q = [(k, r)]"
    using push_room [of "client_emu st" "(k, r)"] assms(1,4) by (simp add: impl_ok_def queue_capacity_def)
  ultimately show ?thesis using s by (simp add: session_of_def)
qed

text \<open>A single queued response is written to its session.\<close>

lemma respond_single:
  assumes "impl_ok st" and "contents (emu_client st) = [(k, res)]" and "message_ok res"
    and "session_of k (server st) = Some (obj, s)" and "write_buffer s = []"
  shows "\<exists>st1. respond_loop dump_float st = Some (Inr st1)
     \<and> net st1 = net st @ [Async_write (map byte_of_char (response_text res))]"
proof -
  have ok: "ringbuffer_ok (emu_client st)" using assms(1) by (simp add: impl_ok_def)
  from respond.work_in_order [OF ok, of dump_float] obtain q where
    "respond_loop dump_float st = Some (bindr (send_one dump_float (k, res) st) (\<lambda>st'. Inr (st'\<lparr>emu_client := q\<rparr>)))"
    using assms(2) by auto
  then show ?thesis
    using Listener_Send_cases [OF assms(3), where k = k and l = "server st" and dump_float = dump_float] assms(4,5)
    by (simp add: send_one_def RPCServer_SendResponse_def Let_def)
qed

lemma request_answered:
  assumes "impl_ok st" and "\<not> stopped st" and "contents (client_emu st) = []" and "contents (emu_client st) = []"
    and "session_of k (server st) = Some (obj, s)" and "read_buffer s = []" and "write_buffer s = []"
    and "JSON_DeserializeRequest bytes = Inr r" and "readable r" and "n \<noteq> 0"
    and "serve (config st) [(k, r)] (guest st) = ([(k, res)], g)" and "message_ok res"
  shows "\<exists>st1 st2 st3. io_read obj bytes ec n st = Inr st1
     \<and> process_events_iteration dump_float st1 = Some (Inr (True, st2))
     \<and> process_events_iteration dump_float st2 = Some (Inr (True, st3))
     \<and> net st3 = net st @ [Async_read, Async_write (map byte_of_char (response_text res))] \<and> guest st3 = g"
proof -
  obtain st1 where st1: "io_read obj bytes ec n st = Inr st1" "impl_ok st1" "contents (client_emu st1) = [(k, r)]"
    "emu_client st1 = emu_client st" "net st1 = net st @ [Async_read]" "session_of k (server st1) = Some (obj, s)"
    "guest st1 = guest st" "config st1 = config st" "stopped st1 = stopped st"
    using io_read_request [OF assms(1,5,6,3,8,10)] by blast
  have "ringbuffer_ok (emu_client st1)" using st1(2) by (simp add: impl_ok_def)
  from respond.work_in_order [OF this, of dump_float] st1(4) assms(4) obtain q where
    r1: "respond_loop dump_float st1 = Some (Inr (st1\<lparr>emu_client := q\<rparr>))" by auto
  obtain st2 where st2: "process_events_iteration dump_float st1 = Some (Inr (True, st2))" "contents (client_emu st2) = []"
    "contents (emu_client st2) = [(k, res)]" "guest st2 = g" "server st2 = server st1" "net st2 = net st1"
    "config st2 = config st" "stopped st2 = stopped st" "impl_ok st2"
    using process_events_ok [OF st1(2), of dump_float] st1 r1 assms(2,9,11) by auto
  from respond_single [OF st2(9,3) assms(12), of obj s dump_float] st2(5) st1(6) assms(7) obtain st2' where
    r2: "respond_loop dump_float st2 = Some (Inr st2')"
    "net st2' = net st2 @ [Async_write (map byte_of_char (response_text res))]" by auto
  obtain st3 where "process_events_iteration dump_float st2 = Some (Inr (True, st3))" "net st3 = net st2'" "guest st3 = g"
    using process_events_ok [OF st2(9), of dump_float] st2 r2 assms(2) by auto
  with st1 st2 r2 show ?thesis by auto
qed

section \<open>A connected client\<close>

text \<open>The state after one client has connected to an emulator with a flat memory.\<close>

definition flat_idle :: "(u64 \<Rightarrow> u8) impl" where
  "flat_idle = io_accept False flat_start"

lemma flat_idle_reachable: "system_reachable dump_float flat_idle"
  unfolding flat_idle_def by (rule system_reachable.step [OF flat_reachable(1) system_step.accept])

lemma flat_idle_fields [simp]:
  "contents (client_emu flat_idle) = []" "contents (emu_client flat_idle) = []" "stopped flat_idle = False"
  "config flat_idle = flat_config" "guest flat_idle = (\<lambda>_. 0)" "net flat_idle = [Async_accept, Async_accept, Async_accept]"
  "session_of 0 (server flat_idle) = Some (0, Session_make 0)" "objects (server flat_idle) = [0 \<mapsto> Session_make 0]"
  by (simp_all add: flat_idle_def flat_start_def io_accept_def EmuRPC_make_def Listener_Run_def Listener_make_def
      Listener_OnAccept_def Session_Run_def session_of_def Session_make_def)

lemma flat_callbacks [simp]:
  "memory_read_callback flat_config = (\<lambda>a n d g. (map (\<lambda>i. g (a + of_nat i)) [0..<length d], g))"
  "memory_write_callback flat_config = (\<lambda>a n d g. \<lambda>x. if unat (x - a) < length d then d ! unat (x - a) else g x)"
  by (simp_all add: flat_config_def Config.defs)

lemma Session_make_fields [simp]:
  "sess_id (Session_make k) = k" "read_buffer (Session_make k) = []" "write_buffer (Session_make k) = []"
  by (simp_all add: Session_make_def)

section \<open>Properties across components\<close>

text \<open>
  C1: a memory read from end to end: the bytes of a well-formed request that arrive on an idle
  session are parsed, queued, handed to the emulator's callback by the next iteration of
  \<open>ProcessEvents\<close>, and the iteration after it writes to the same session the response that
  carries the id of the request and the base64 text of the bytes the callback produced.
\<close>

theorem memory_read_answered:
  assumes "system_reachable dump_float st" and "\<not> stopped st"
    and "contents (client_emu st) = []" and "contents (emu_client st) = []"
    and "session_of k (server st) = Some (obj, s)" and "read_buffer s = []" and "write_buffer s = []"
    and "packet_method p = Method_MemoryRead" and "unat (read_length p) < 2 ^ 63" and "n \<noteq> 0"
    and "memory_read_callback (config st) (read_address p) (read_length p)
           (replicate (unat (read_length p)) 0) (guest st) = (data, g)"
  shows "\<exists>st1 st2 st3. io_read obj (wire (memory_read_value p)) ec n st = Inr st1
     \<and> process_events_iteration dump_float st1 = Some (Inr (True, st2))
     \<and> process_events_iteration dump_float st2 = Some (Inr (True, st3))
     \<and> net st3 = net st @ [Async_read, Async_write (map byte_of_char
         (result_text (packet_id p) (rfc4648_encode data)))]
     \<and> guest st3 = g"
  using request_answered [OF reachable_ok [OF assms(1)] assms(2-7) Deserialize_read [OF assms(8)], of n
      "Resp_MemoryRead (memory_read_response_make (packet_id p) data)" g ec dump_float] assms(9-11)
  by (simp add: vector_max_size_def NoneError_def)

theorem memory_read_answered_witness:
  "\<exists>st1 st2 st3. io_read 0 (wire (memory_read_value (memory_read_make 7 Immediate NonBlocking Once 0x100 3))) False 1 flat_idle = Inr st1
     \<and> process_events_iteration (\<lambda>_. []) st1 = Some (Inr (True, st2))
     \<and> process_events_iteration (\<lambda>_. []) st2 = Some (Inr (True, st3))
     \<and> net st3 = net flat_idle @ [Async_read, Async_write (map byte_of_char (result_text 7 (rfc4648_encode [0, 0, 0])))]
     \<and> guest st3 = (\<lambda>_. 0)"
  using memory_read_answered [OF flat_idle_reachable, where k = 0 and obj = 0 and s = "Session_make 0"
      and p = "memory_read_make 7 Immediate NonBlocking Once 0x100 3" and n = 1 and data = "[0, 0, 0]"
      and g = "\<lambda>_. 0" and dump_float = "\<lambda>_. []" and ec = False]
  by (simp add: upt_conv_Cons)

text \<open>
  C13: a memory write from end to end: the callback is given the address and the data of the
  request with one zero byte for each padding character of the base64 text, so up to two bytes
  more than the client sent; the response carries the id of the request and an empty result.
\<close>

theorem memory_write_answered:
  assumes "system_reachable dump_float st" and "\<not> stopped st"
    and "contents (client_emu st) = []" and "contents (emu_client st) = []"
    and "session_of k (server st) = Some (obj, s)" and "read_buffer s = []" and "write_buffer s = []"
    and "packet_method p = Method_MemoryWrite" and "n \<noteq> 0"
    and "bytes = write_data p @ replicate ((3 - length (write_data p) mod 3) mod 3) 0"
  shows "\<exists>st1 st2 st3. io_read obj (wire (memory_write_value p (rfc4648_encode (write_data p)))) ec n st = Inr st1
     \<and> process_events_iteration dump_float st1 = Some (Inr (True, st2))
     \<and> process_events_iteration dump_float st2 = Some (Inr (True, st3))
     \<and> net st3 = net st @ [Async_read, Async_write (map byte_of_char (result_text (packet_id p) []))]
     \<and> guest st3 = memory_write_callback (config st) (write_address p) (of_nat (length bytes)) bytes (guest st)"
  using request_answered [OF reachable_ok [OF assms(1)] assms(2-7)
      Deserialize_write [OF assms(8) rfc4648_encode_utf8 dec_enc_result], where n = n and ec = ec
      and res = "Resp_MemoryWrite (memory_write_response_make (packet_id p))" and dump_float = dump_float] assms(9-10)
  by (simp add: NoneError_def)

theorem memory_write_answered_witness:
  "\<exists>st1 st2 st3. io_read 0 (wire (memory_write_value (memory_write_make 8 Immediate NonBlocking Once 0x10 [5, 6]) (rfc4648_encode [5, 6]))) False 1 flat_idle = Inr st1
     \<and> process_events_iteration (\<lambda>_. []) st1 = Some (Inr (True, st2))
     \<and> process_events_iteration (\<lambda>_. []) st2 = Some (Inr (True, st3))
     \<and> net st3 = net flat_idle @ [Async_read, Async_write (map byte_of_char (result_text 8 []))]
     \<and> guest st3 = (\<lambda>x. if unat (x - 0x10) < length [5 :: u8, 6, 0] then [5, 6, 0] ! unat (x - 0x10) else 0)"
  using memory_write_answered [OF flat_idle_reachable, where k = 0 and obj = 0 and s = "Session_make 0"
      and p = "memory_write_make 8 Immediate NonBlocking Once 0x10 [5, 6]" and n = 1 and bytes = "[5, 6, 0]"
      and dump_float = "\<lambda>_. []" and ec = False]
  by simp



end
